theory Spec2Isabelle
  imports Complex_Main "HOL-Library.Sublist" "HOL-Library.Code_Target_Nat"
begin

section \<open>Python values used by the crawler\<close>

text \<open>
  A Python \<open>str\<close> is a sequence of Unicode code points, and \<open>len\<close> counts code points.
  The keyword list and the anchor texts of the crawler are Chinese, so a string is modelled
  as the list of its code points. \<open>str\<close> embeds an ASCII literal.
\<close>

type_synonym pystr = "nat list"

definition str :: "string \<Rightarrow> pystr" where
  "str s = map of_char s"

text \<open>Python's \<open>needle in hay\<close> on strings: \<open>hay.find(needle) >= 0\<close>, scanning from the left.\<close>

fun str_in :: "pystr \<Rightarrow> pystr \<Rightarrow> bool" where
  "str_in needle [] = (needle = [])"
| "str_in needle (c # cs) = (prefix needle (c # cs) \<or> str_in needle cs)"

text \<open>
  Python's slice \<open>xs[:n]\<close>: a negative bound counts from the end of the list, a bound
  past either end is clipped.
\<close>

definition slice_to :: "'a list \<Rightarrow> int \<Rightarrow> 'a list" where
  "slice_to xs n = (if n < 0 then take (nat (int (length xs) + n)) xs else take (nat n) xs)"

text \<open>
  The exceptions that can reach the crawler's code. All are subclasses of Python's
  \<open>Exception\<close>, the class \<open>crawl\<close> catches; \<open>RequestException\<close> is the one class \<open>_get\<close>
  catches. \<open>ValueError\<close> is what \<open>urljoin\<close> raises on a malformed reference, what
  \<open>time.sleep\<close> raises on a negative length and, through its subclass
  \<open>UnicodeEncodeError\<close>, what the parser raises on a text it cannot encode;
  \<open>OverflowError\<close> is what \<open>time.sleep\<close> raises on a length too large.
\<close>

datatype exn = RequestException | ValueError | OverflowError | OtherException

subsection \<open>Parsed documents\<close>

text \<open>
  \<open>BeautifulSoup(html, "lxml")\<close> turns the page text into a tree, or raises. The parser is
  a library and is a parameter of the model (\<open>BeautifulSoup\<close> below); the tree it returns
  is modelled as data: an element has a tag name, its list of classes, its other
  attributes and its children; a text node holds a string. What \<open>get_text\<close> makes of a
  tree is the library's business too (it depends on the kind of each string: text,
  script, style, comment) and is a parameter as well.
\<close>

datatype node = Text pystr | Tag pystr "pystr list" "(pystr \<times> pystr) list" "node list"

type_synonym soup = "node list"

text \<open>\<open>a.get("href")\<close>: the attribute's value, or \<open>None\<close>.\<close>

fun el_get :: "node \<Rightarrow> pystr \<Rightarrow> pystr option" where
  "el_get (Text s) key = None"
| "el_get (Tag name classes attrs children) key = map_of attrs key"

text \<open>
  The CSS selectors the crawler uses are of four shapes: a tag name (\<open>h1\<close>), a class
  (\<open>.content\<close>), a tag with an attribute containing a substring (\<open>a[href*="news"]\<close>) and
  a descendant pair (\<open>.news-list a\<close>).
\<close>

datatype simple_selector =
    ByTag pystr
  | ByClass pystr
  | ByAttrContains pystr pystr pystr

datatype selector = Simple simple_selector | Descendant simple_selector simple_selector

fun matches_simple :: "simple_selector \<Rightarrow> node \<Rightarrow> bool" where
  "matches_simple sel (Text s) = False"
| "matches_simple (ByTag t) (Tag name classes attrs children) = (name = t)"
| "matches_simple (ByClass c) (Tag name classes attrs children) = (c \<in> set classes)"
| "matches_simple (ByAttrContains t key sub) (Tag name classes attrs children) =
     (name = t \<and> (case map_of attrs key of None \<Rightarrow> False | Some v \<Rightarrow> str_in sub v))"

fun matches :: "selector \<Rightarrow> node \<Rightarrow> node list \<Rightarrow> bool" where
  "matches (Simple s) el ancestors = matches_simple s el"
| "matches (Descendant a s) el ancestors =
     (matches_simple s el \<and> list_ex (matches_simple a) ancestors)"

text \<open>The elements of a subtree in document order, each with its ancestors.\<close>

fun elements :: "node list \<Rightarrow> node \<Rightarrow> (node \<times> node list) list" where
  "elements ancestors (Text s) = []"
| "elements ancestors (Tag name classes attrs children) =
     (Tag name classes attrs children, ancestors)
       # concat (map (elements (Tag name classes attrs children # ancestors)) children)"

definition select :: "soup \<Rightarrow> selector \<Rightarrow> node list" where
  "select doc sel =
     map fst (filter (\<lambda>(el, ancestors). matches sel el ancestors) (concat (map (elements []) doc)))"

definition select_one :: "soup \<Rightarrow> selector \<Rightarrow> node option" where
  "select_one doc sel = (case select doc sel of [] \<Rightarrow> None | el # rest \<Rightarrow> Some el)"


section \<open>The crawler module\<close>

subsection \<open>Module constants\<close>

definition DEFAULT_KEYWORDS :: "pystr list" where
  "DEFAULT_KEYWORDS =
    [[21512, 20316],
     [26657, 20225],
     [20225, 19994, 21512, 20316],
     [20135, 23398, 30740],
     [25112, 30053, 21512, 20316],
     [31614, 32422],
     [26657, 20225, 21512, 20316],
     [20135, 19994, 21512, 20316],
     [20225, 19994, 25424, 36192],
     [21512, 20316, 21150, 23398],
     [32852, 21512, 23454, 39564, 23460],
     str ''cooperation'',
     str ''partnership'',
     str ''collaboration'']"

text \<open>A \<open>dict\<close> iterates in insertion order: an association list.\<close>

definition DEFAULT_SITES :: "(pystr \<times> pystr) list" where
  "DEFAULT_SITES =
    [([28165, 21326, 22823, 23398], str ''https://www.tsinghua.edu.cn/''),
     ([21271, 20140, 22823, 23398], str ''https://www.pku.edu.cn/''),
     ([27993, 27743, 22823, 23398], str ''https://www.zju.edu.cn/''),
     ([22797, 26086, 22823, 23398], str ''https://www.fudan.edu.cn/''),
     ([19978, 28023, 20132, 36890, 22823, 23398], str ''https://www.sjtu.edu.cn/'')]"

definition NEWS_LIST_PATTERNS :: "pystr list" where
  "NEWS_LIST_PATTERNS =
    [str ''news/'', str ''article/'', str ''info/'', str ''content/'', str ''xxgg/'', str ''xwdt/'']"

datatype content_field = Title | Time | Body

fun NEWS_CONTENT_SELECTORS :: "content_field \<Rightarrow> selector list" where
  "NEWS_CONTENT_SELECTORS Title =
     [Simple (ByTag (str ''h1'')), Simple (ByClass (str ''article-title'')),
      Simple (ByClass (str ''news-title'')), Simple (ByTag (str ''title''))]"
| "NEWS_CONTENT_SELECTORS Time =
     [Simple (ByClass (str ''publish-time'')), Simple (ByClass (str ''article-time'')),
      Simple (ByClass (str ''news-time'')), Simple (ByTag (str ''time''))]"
| "NEWS_CONTENT_SELECTORS Body =
     [Simple (ByClass (str ''article-content'')), Simple (ByClass (str ''news-content'')),
      Simple (ByClass (str ''content'')), Simple (ByTag (str ''article''))]"

definition NEWS_LINK_SELECTORS :: "selector list" where
  "NEWS_LINK_SELECTORS =
    [Simple (ByAttrContains (str ''a'') (str ''href'') (str ''news'')),
     Simple (ByAttrContains (str ''a'') (str ''href'') (str ''article'')),
     Simple (ByAttrContains (str ''a'') (str ''href'') (str ''info'')),
     Simple (ByAttrContains (str ''a'') (str ''href'') (str ''content'')),
     Descendant (ByClass (str ''news-list'')) (ByTag (str ''a'')),
     Descendant (ByClass (str ''article-list'')) (ByTag (str ''a'')),
     Descendant (ByClass (str ''news-item'')) (ByTag (str ''a'')),
     Descendant (ByClass (str ''list-item'')) (ByTag (str ''a''))]"

subsection \<open>CrawlConfig\<close>

text \<open>
  A plain dataclass: its generated constructor stores the values it is given and checks
  none of them. The delays are Python floats; a finite float is a real number, and the
  model does no arithmetic on them: what \<open>random.uniform\<close> returns and what \<open>time.sleep\<close>
  does with it are parameters below. NaN and the infinities are not represented.
\<close>

record CrawlConfig =
  timeout :: int
  delay_min :: real
  delay_max :: real
  max_per_site :: int
  user_agent :: pystr

definition default_CrawlConfig :: CrawlConfig where
  "default_CrawlConfig =
     \<lparr>timeout = 10, delay_min = 1, delay_max = 3, max_per_site = 10,
      user_agent = str (''Mozilla/5.0 (Macintosh; Intel Mac OS X 10_15_7) ''
        @ ''AppleWebKit/537.36 (KHTML, like Gecko) '' @ ''Chrome/124.0 Safari/537.36'')\<rparr>"

subsection \<open>What the crawler calls\<close>

text \<open>
  The libraries and the world the crawler runs in are parameters of the model:
  \<^item> \<open>session_get ua t url\<close>: \<open>session.get(url, timeout=t)\<close> with the session's user agent,
    followed by \<open>raise_for_status()\<close> and \<open>resp.text\<close>: the decoded body or the exception;
  \<^item> \<open>BeautifulSoup\<close>: the parser, which returns a tree or raises;
  \<^item> \<open>tag_get_text\<close>, \<open>soup_get_text\<close>: \<open>get_text(strip=True)\<close> of an element and of the
    whole document;
  \<^item> \<open>urljoin\<close>, \<open>urlparse\<close> of \<open>urllib.parse\<close>; both raise \<open>ValueError\<close> on some inputs;
    of \<open>urlparse\<close>'s result the crawler reads \<open>scheme\<close> and \<open>netloc\<close>;
  \<^item> \<open>str_lower\<close>: \<open>str.lower()\<close>;
  \<^item> \<open>set_order\<close>: the order in which \<open>list(s)\<close> enumerates a set, given its elements in
    order of insertion;
  \<^item> \<open>random_uniform k a b\<close>: the float the \<open>k\<close>-th call of \<open>random.uniform\<close> returns when
    it is given \<open>a\<close> and \<open>b\<close>;
  \<^item> \<open>time_sleep d\<close>: the exception \<open>time.sleep(d)\<close> raises, or \<open>None\<close> when it returns;
  \<^item> \<open>clock_now k\<close>: the formatted \<open>datetime.now()\<close> at the \<open>k\<close>-th row.

  Each is a function of its arguments: within one run the web answers a URL the same way
  every time it is asked. \<open>select\<close>, \<open>select_one\<close> and \<open>get\<close> on a parsed tree do not raise.
\<close>

record env =
  session_get :: "pystr \<Rightarrow> int \<Rightarrow> pystr \<Rightarrow> exn + pystr"
  BeautifulSoup :: "pystr \<Rightarrow> exn + soup"
  tag_get_text :: "node \<Rightarrow> pystr"
  soup_get_text :: "soup \<Rightarrow> pystr"
  urljoin :: "pystr \<Rightarrow> pystr \<Rightarrow> exn + pystr"
  urlparse :: "pystr \<Rightarrow> exn + pystr \<times> pystr"
  str_lower :: "pystr \<Rightarrow> pystr"
  set_order :: "(pystr \<times> pystr) list \<Rightarrow> (pystr \<times> pystr) list"
  random_uniform :: "nat \<Rightarrow> real \<Rightarrow> real \<Rightarrow> real"
  time_sleep :: "real \<Rightarrow> exn option"
  clock_now :: "nat \<Rightarrow> pystr"

text \<open>
  A set comprehension inserts the elements one by one; \<open>list\<close> then enumerates the set.
\<close>

definition set_add :: "'a list \<Rightarrow> 'a \<Rightarrow> 'a list" where
  "set_add s x = (if x \<in> set s then s else s @ [x])"

definition list_of_set :: "env \<Rightarrow> (pystr \<times> pystr) list \<Rightarrow> (pystr \<times> pystr) list" where
  "list_of_set e xs = set_order e (foldl set_add [] xs)"

subsection \<open>UniversityNewsCrawler\<close>

record row =
  university :: pystr
  title :: pystr
  publish_time :: pystr
  content :: pystr
  url :: pystr
  link_text :: pystr
  crawl_time :: pystr

record article =
  art_title :: pystr
  art_publish_time :: pystr
  art_content :: pystr
  art_url :: pystr

datatype log_record =
    Info_crawling pystr
  | Info_candidates pystr nat
  | Warning_get_failed pystr exn
  | Error_on pystr exn

text \<open>
  The dataclass has the fields \<open>keywords\<close> (here \<open>crawler_keywords\<close>), \<open>sites\<close>, \<open>cfg\<close>
  and, from \<open>__post_init__\<close>, \<open>rows\<close>. Two more components record what the object does to
  its surroundings: \<open>log\<close>, the records handed to the module's logger, and \<open>ticks\<close>, the
  number of rows assembled so far, which indexes the clock readings and the random draws
  (each row takes one reading and one draw).
\<close>

record UniversityNewsCrawler =
  crawler_keywords :: "pystr list"
  sites :: "(pystr \<times> pystr) list"
  cfg :: CrawlConfig
  rows :: "row list"
  log :: "log_record list"
  ticks :: nat

definition new_crawler ::
  "pystr list \<Rightarrow> (pystr \<times> pystr) list \<Rightarrow> CrawlConfig \<Rightarrow> UniversityNewsCrawler" where
  "new_crawler kws ss c = \<lparr>crawler_keywords = kws, sites = ss, cfg = c, rows = [], log = [], ticks = 0\<rparr>"

definition is_valid_url :: "env \<Rightarrow> pystr \<Rightarrow> bool" where
  "is_valid_url e u =
     (case urlparse e u of
        Inl err \<Rightarrow> False
      | Inr (scheme, netloc) \<Rightarrow> scheme \<noteq> [] \<and> netloc \<noteq> [])"

text \<open>
  \<open>_get\<close>: a \<open>RequestException\<close> is logged and becomes \<open>None\<close>; any other exception
  leaves the method.
\<close>

definition get ::
  "env \<Rightarrow> UniversityNewsCrawler \<Rightarrow> pystr \<Rightarrow> (exn + pystr option) \<times> UniversityNewsCrawler" where
  "get e self u =
     (case session_get e (user_agent (cfg self)) (timeout (cfg self)) u of
        Inr text \<Rightarrow> (Inr (Some text), self)
      | Inl RequestException \<Rightarrow>
          (Inr None, self\<lparr>log := log self @ [Warning_get_failed u RequestException]\<rparr>)
      | Inl err \<Rightarrow> (Inl err, self))"

definition contains_kw :: "env \<Rightarrow> UniversityNewsCrawler \<Rightarrow> pystr option \<Rightarrow> bool" where
  "contains_kw e self text =
     (case text of
        None \<Rightarrow> False
      | Some t \<Rightarrow>
          if t = [] then False
          else (let tl = str_lower e t
                in list_ex (\<lambda>kw. str_in (str_lower e kw) tl) (crawler_keywords self)))"

text \<open>
  \<open>_extract_links\<close>. The body of the inner loop, for one anchor \<open>a\<close>: \<open>None\<close> stands for
  \<open>continue\<close> and for an empty anchor text, \<open>Inl\<close> for the \<open>ValueError\<close> that \<open>urljoin\<close>
  raises outside any \<open>try\<close>. The parser's exception leaves the method as well.
\<close>

definition anchor_link :: "env \<Rightarrow> pystr \<Rightarrow> node \<Rightarrow> exn + (pystr \<times> pystr) option" where
  "anchor_link e base_url a =
     (case el_get a (str ''href'') of
        None \<Rightarrow> Inr None
      | Some href \<Rightarrow>
          if href = [] then Inr None
          else (case urljoin e base_url href of
                  Inl err \<Rightarrow> Inl err
                | Inr full \<Rightarrow>
                    if \<not> is_valid_url e full then Inr None
                    else (let text = tag_get_text e a
                          in if text \<noteq> [] then Inr (Some (full, text)) else Inr None)))"

fun links_of_anchors ::
  "env \<Rightarrow> pystr \<Rightarrow> node list \<Rightarrow> (pystr \<times> pystr) list \<Rightarrow> exn + (pystr \<times> pystr) list" where
  "links_of_anchors e base_url [] links = Inr links"
| "links_of_anchors e base_url (a # rest) links =
     (case anchor_link e base_url a of
        Inl err \<Rightarrow> Inl err
      | Inr None \<Rightarrow> links_of_anchors e base_url rest links
      | Inr (Some l) \<Rightarrow> links_of_anchors e base_url rest (links @ [l]))"

fun links_of_selectors ::
  "env \<Rightarrow> pystr \<Rightarrow> soup \<Rightarrow> selector list \<Rightarrow> (pystr \<times> pystr) list
     \<Rightarrow> exn + (pystr \<times> pystr) list" where
  "links_of_selectors e base_url doc [] links = Inr links"
| "links_of_selectors e base_url doc (sel # sels) links =
     (case links_of_anchors e base_url (select doc sel) links of
        Inl err \<Rightarrow> Inl err
      | Inr links' \<Rightarrow> links_of_selectors e base_url doc sels links')"

definition extract_links :: "env \<Rightarrow> pystr \<Rightarrow> pystr \<Rightarrow> exn + (pystr \<times> pystr) list" where
  "extract_links e html base_url =
     (case BeautifulSoup e html of
        Inl err \<Rightarrow> Inl err
      | Inr doc \<Rightarrow>
          (case links_of_selectors e base_url doc NEWS_LINK_SELECTORS [] of
             Inl err \<Rightarrow> Inl err
           | Inr links \<Rightarrow> Inr (list_of_set e links)))"

text \<open>
  \<open>_extract_content\<close> and its local function \<open>pick\<close>. The method has no \<open>try\<close>: an
  exception of the parser leaves it.
\<close>

fun pick :: "env \<Rightarrow> soup \<Rightarrow> selector list \<Rightarrow> pystr" where
  "pick e doc [] = []"
| "pick e doc (s # ss) =
     (case select_one doc s of
        None \<Rightarrow> pick e doc ss
      | Some el \<Rightarrow> (let txt = tag_get_text e el in if txt \<noteq> [] then txt else pick e doc ss))"

text \<open>The body text before truncation: \<open>pick(...) or soup.get_text(strip=True)\<close>.\<close>

definition body_text :: "env \<Rightarrow> soup \<Rightarrow> pystr" where
  "body_text e doc =
     (let picked = pick e doc (NEWS_CONTENT_SELECTORS Body)
      in if picked \<noteq> [] then picked else soup_get_text e doc)"

definition extract_content :: "env \<Rightarrow> pystr \<Rightarrow> pystr \<Rightarrow> exn + article" where
  "extract_content e html u =
     (case BeautifulSoup e html of
        Inl err \<Rightarrow> Inl err
      | Inr doc \<Rightarrow>
          (let t = pick e doc (NEWS_CONTENT_SELECTORS Title);
               pt = pick e doc (NEWS_CONTENT_SELECTORS Time);
               c = body_text e doc;
               c' = (if length c > 500 then slice_to c 500 @ str ''...'' else c)
           in Inr \<lparr>art_title = t, art_publish_time = pt, art_content = c', art_url = u\<rparr>))"

text \<open>
  \<open>crawl_site\<close>, first loop: the listing pages. A result \<open>(Inl err, self)\<close> is an
  exception leaving the method in state \<open>self\<close>.
\<close>

fun listing_candidates ::
  "env \<Rightarrow> pystr \<Rightarrow> pystr list \<Rightarrow> (pystr \<times> pystr) list \<Rightarrow> UniversityNewsCrawler
     \<Rightarrow> (exn + (pystr \<times> pystr) list) \<times> UniversityNewsCrawler" where
  "listing_candidates e base_url [] candidates self = (Inr candidates, self)"
| "listing_candidates e base_url (pat # pats) candidates self =
     (case urljoin e base_url pat of
        Inl err \<Rightarrow> (Inl err, self)
      | Inr u \<Rightarrow>
          (case get e self u of
             (Inl err, self') \<Rightarrow> (Inl err, self')
           | (Inr None, self') \<Rightarrow> listing_candidates e base_url pats candidates self'
           | (Inr (Some html), self') \<Rightarrow>
               if html = [] then listing_candidates e base_url pats candidates self'
               else if contains_kw e self' (Some html) then
                 (case extract_links e html base_url of
                    Inl err \<Rightarrow> (Inl err, self')
                  | Inr links \<Rightarrow>
                      listing_candidates e base_url pats (candidates @ links) self')
               else listing_candidates e base_url pats candidates self'))"

text \<open>The homepage scan that follows the first loop.\<close>

definition home_candidates ::
  "env \<Rightarrow> pystr \<Rightarrow> (pystr \<times> pystr) list \<Rightarrow> UniversityNewsCrawler
     \<Rightarrow> (exn + (pystr \<times> pystr) list) \<times> UniversityNewsCrawler" where
  "home_candidates e base_url candidates self =
     (case get e self base_url of
        (Inl err, self') \<Rightarrow> (Inl err, self')
      | (Inr None, self') \<Rightarrow> (Inr candidates, self')
      | (Inr (Some home), self') \<Rightarrow>
          if home = [] then (Inr candidates, self')
          else (case extract_links e home base_url of
                  Inl err \<Rightarrow> (Inl err, self')
                | Inr links \<Rightarrow> (Inr (candidates @ links), self')))"

text \<open>
  \<open>crawl_site\<close>, last loop: one visit per candidate. An exception of \<open>_extract_content\<close>
  leaves the method before the row is made; the row is appended before \<open>time.sleep\<close>
  runs, and an exception of \<open>time.sleep\<close> leaves the method after it.
\<close>

fun visit ::
  "env \<Rightarrow> pystr \<Rightarrow> (pystr \<times> pystr) list \<Rightarrow> UniversityNewsCrawler
     \<Rightarrow> exn option \<times> UniversityNewsCrawler" where
  "visit e name [] self = (None, self)"
| "visit e name ((u, text) # rest) self =
     (case get e self u of
        (Inl err, self') \<Rightarrow> (Some err, self')
      | (Inr None, self') \<Rightarrow> visit e name rest self'
      | (Inr (Some html), self') \<Rightarrow>
          if html = [] then visit e name rest self'
          else (case extract_content e html u of
                  Inl err \<Rightarrow> (Some err, self')
                | Inr data \<Rightarrow>
                    (let r = \<lparr>university = name, title = art_title data,
                              publish_time = art_publish_time data,
                              content = art_content data, url = art_url data,
                              link_text = text, crawl_time = clock_now e (ticks self')\<rparr>;
                         self'' = self'\<lparr>rows := rows self' @ [r], ticks := Suc (ticks self')\<rparr>;
                         d = random_uniform e (ticks self')
                               (delay_min (cfg self')) (delay_max (cfg self'))
                     in case time_sleep e d of
                          Some err \<Rightarrow> (Some err, self'')
                        | None \<Rightarrow> visit e name rest self'')))"

text \<open>The candidates that reach the last loop: merged, deduplicated, filtered by anchor text.\<close>

definition filtered_candidates ::
  "env \<Rightarrow> UniversityNewsCrawler \<Rightarrow> (pystr \<times> pystr) list \<Rightarrow> (pystr \<times> pystr) list" where
  "filtered_candidates e self candidates =
     (let uniq = list_of_set e candidates
      in filter (\<lambda>(u, t). contains_kw e self (Some t)) uniq)"

text \<open>
  \<open>crawl_site\<close> up to its second log line: the result is \<open>filtered\<close>.
\<close>

definition site_candidates ::
  "env \<Rightarrow> UniversityNewsCrawler \<Rightarrow> pystr \<Rightarrow> pystr
     \<Rightarrow> (exn + (pystr \<times> pystr) list) \<times> UniversityNewsCrawler" where
  "site_candidates e self name base_url =
     (let self1 = self\<lparr>log := log self @ [Info_crawling name]\<rparr>
      in case listing_candidates e base_url NEWS_LIST_PATTERNS [] self1 of
           (Inl err, self2) \<Rightarrow> (Inl err, self2)
         | (Inr candidates, self2) \<Rightarrow>
             (case home_candidates e base_url candidates self2 of
                (Inl err, self3) \<Rightarrow> (Inl err, self3)
              | (Inr candidates', self3) \<Rightarrow>
                  (let filtered = filtered_candidates e self3 candidates'
                   in (Inr filtered,
                       self3\<lparr>log := log self3 @ [Info_candidates name (length filtered)]\<rparr>))))"

definition crawl_site ::
  "env \<Rightarrow> UniversityNewsCrawler \<Rightarrow> pystr \<Rightarrow> pystr \<Rightarrow> exn option \<times> UniversityNewsCrawler" where
  "crawl_site e self name base_url =
     (case site_candidates e self name base_url of
        (Inl err, self') \<Rightarrow> (Some err, self')
      | (Inr filtered, self') \<Rightarrow>
          visit e name (slice_to filtered (max_per_site (cfg self'))) self')"

text \<open>
  \<open>crawl\<close>: \<open>sites or self.sites\<close> takes the argument unless it is \<open>None\<close> or empty; the
  loop catches every exception of a site, logs it and goes on. The method returns
  \<open>self.rows\<close>; the model returns the crawler as well.
\<close>

fun crawl_loop ::
  "env \<Rightarrow> (pystr \<times> pystr) list \<Rightarrow> UniversityNewsCrawler \<Rightarrow> UniversityNewsCrawler" where
  "crawl_loop e [] self = self"
| "crawl_loop e ((name, u) # rest) self =
     (case crawl_site e self name u of
        (None, self') \<Rightarrow> crawl_loop e rest self'
      | (Some err, self') \<Rightarrow>
          crawl_loop e rest (self'\<lparr>log := log self' @ [Error_on name err]\<rparr>))"

definition crawl ::
  "env \<Rightarrow> UniversityNewsCrawler \<Rightarrow> (pystr \<times> pystr) list option
     \<Rightarrow> row list \<times> UniversityNewsCrawler" where
  "crawl e self sites_arg =
     (let target = (case sites_arg of
                      None \<Rightarrow> sites self
                    | Some s \<Rightarrow> if s = [] then sites self else s);
          self' = crawl_loop e target self
      in (rows self', self'))"

section \<open>The command line\<close>

text \<open>
  The options \<open>main\<close> reads to build the configuration; \<open>argparse\<close> converts them with
  \<open>int\<close> and \<open>float\<close> and checks nothing else.
\<close>

record args =
  arg_max_per_site :: int
  arg_delay_min :: real
  arg_delay_max :: real
  arg_timeout :: int

definition main_cfg :: "args \<Rightarrow> CrawlConfig" where
  "main_cfg a =
     default_CrawlConfig\<lparr>timeout := arg_timeout a, delay_min := arg_delay_min a,
       delay_max := arg_delay_max a, max_per_site := arg_max_per_site a\<rparr>"

definition main_crawler :: "args \<Rightarrow> (pystr \<times> pystr) list \<Rightarrow> UniversityNewsCrawler" where
  "main_crawler a ss = new_crawler DEFAULT_KEYWORDS ss (main_cfg a)"

definition main_crawl ::
  "env \<Rightarrow> args \<Rightarrow> (pystr \<times> pystr) list \<Rightarrow> row list \<times> UniversityNewsCrawler" where
  "main_crawl e a ss = crawl e (main_crawler a ss) None"

section \<open>Properties named by the specification\<close>

text \<open>The invariant the specification states for a configuration.\<close>

definition cfg_invariant :: "CrawlConfig \<Rightarrow> bool" where
  "cfg_invariant c =
     (delay_min c \<le> delay_max c \<and> 0 \<le> delay_max c \<and> 0 < timeout c \<and> 0 \<le> max_per_site c)"

text \<open>
  What Python guarantees of \<open>list(s)\<close> for a set \<open>s\<close>: every element once, in some order.
\<close>

definition set_order_ok :: "env \<Rightarrow> bool" where
  "set_order_ok e = (\<forall>s. distinct s \<longrightarrow> distinct (set_order e s) \<and> set (set_order e s) = set s)"

text \<open>Every \<open>time.sleep\<close> of a crawl with this configuration returns.\<close>

definition sleeps_return :: "env \<Rightarrow> UniversityNewsCrawler \<Rightarrow> bool" where
  "sleeps_return e self =
     (\<forall>k. time_sleep e (random_uniform e k (delay_min (cfg self)) (delay_max (cfg self))) = None)"

text \<open>A selector yields no text: it finds no element, or one whose stripped text is empty.\<close>

definition yields_no_text :: "env \<Rightarrow> soup \<Rightarrow> selector \<Rightarrow> bool" where
  "yields_no_text e doc s =
     (case select_one doc s of None \<Rightarrow> True | Some el \<Rightarrow> tag_get_text e el = [])"

text \<open>The anchors \<open>_extract_links\<close> looks at: selector by selector, in document order.\<close>

definition link_anchors :: "soup \<Rightarrow> node list" where
  "link_anchors doc = concat (map (select doc) NEWS_LINK_SELECTORS)"

text \<open>
  A page is fetchable: \<open>_get\<close> returns a non-empty text for it, and the parser returns a
  tree for that text.
\<close>

definition fetchable :: "env \<Rightarrow> UniversityNewsCrawler \<Rightarrow> pystr \<Rightarrow> bool" where
  "fetchable e self u =
     (case session_get e (user_agent (cfg self)) (timeout (cfg self)) u of
        Inl err \<Rightarrow> False
      | Inr html \<Rightarrow>
          html \<noteq> [] \<and> (case BeautifulSoup e html of Inl err \<Rightarrow> False | Inr doc \<Rightarrow> True))"

text \<open>
  A listing page adds no candidates: the fetch fails with a \<open>RequestException\<close>, or the
  page holds no keyword.
\<close>

definition listing_skipped :: "env \<Rightarrow> UniversityNewsCrawler \<Rightarrow> pystr \<Rightarrow> pystr \<Rightarrow> bool" where
  "listing_skipped e self base_url pat =
     (case urljoin e base_url pat of
        Inl err \<Rightarrow> False
      | Inr u \<Rightarrow>
          (case session_get e (user_agent (cfg self)) (timeout (cfg self)) u of
             Inl err \<Rightarrow> err = RequestException
           | Inr html \<Rightarrow> \<not> contains_kw e self (Some html)))"

section \<open>A small world to run the crawler in\<close>

text \<open>
  Stand-ins for the libraries, used to evaluate the model on examples: lower-casing of
  ASCII letters (which is what \<open>str.lower\<close> does on the strings below), and a resolver for
  the references that occur below: absolute URLs, network-path and root-relative
  references, and plain relative paths; a netloc with one unmatched square bracket is the
  \<open>ValueError\<close> "Invalid IPv6 URL".
\<close>

definition ascii_lower :: "pystr \<Rightarrow> pystr" where
  "ascii_lower s = map (\<lambda>c. if 65 \<le> c \<and> c \<le> 90 then c + 32 else c) s"

definition is_ascii_alpha :: "nat \<Rightarrow> bool" where
  "is_ascii_alpha c = ((97 \<le> c \<and> c \<le> 122) \<or> (65 \<le> c \<and> c \<le> 90))"

definition is_scheme_char :: "nat \<Rightarrow> bool" where
  "is_scheme_char c =
     (is_ascii_alpha c \<or> (48 \<le> c \<and> c \<le> 57) \<or> c = 43 \<or> c = 45 \<or> c = 46)"

definition demo_scheme :: "pystr \<Rightarrow> pystr" where
  "demo_scheme u =
     (let s = takeWhile (\<lambda>c. c \<noteq> 58) u
      in if 58 \<in> set u \<and> s \<noteq> [] \<and> list_all is_ascii_alpha (take 1 s) \<and> list_all is_scheme_char s
         then ascii_lower s else [])"

definition demo_after_scheme :: "pystr \<Rightarrow> pystr" where
  "demo_after_scheme u =
     (if demo_scheme u = [] then u else drop (Suc (length (demo_scheme u))) u)"

definition demo_netloc :: "pystr \<Rightarrow> pystr" where
  "demo_netloc u =
     (let r = demo_after_scheme u
      in if take 2 r = str ''//''
         then takeWhile (\<lambda>c. c \<noteq> 47 \<and> c \<noteq> 63 \<and> c \<noteq> 35) (drop 2 r)
         else [])"

definition demo_path :: "pystr \<Rightarrow> pystr" where
  "demo_path u =
     (let r = demo_after_scheme u
      in if take 2 r = str ''//'' then drop (length (demo_netloc u)) (drop 2 r) else r)"

definition demo_urlparse :: "pystr \<Rightarrow> exn + pystr \<times> pystr" where
  "demo_urlparse u =
     (let n = demo_netloc u
      in if (91 \<in> set n) \<noteq> (93 \<in> set n) then Inl ValueError else Inr (demo_scheme u, n))"

definition demo_urljoin :: "pystr \<Rightarrow> pystr \<Rightarrow> exn + pystr" where
  "demo_urljoin base u =
     (case demo_urlparse base of
        Inl err \<Rightarrow> Inl err
      | Inr (bs, bn) \<Rightarrow>
          (case demo_urlparse u of
             Inl err \<Rightarrow> Inl err
           | Inr (s, n) \<Rightarrow>
               if s \<noteq> [] then Inr u
               else if n \<noteq> [] then Inr (bs @ str '':'' @ u)
               else if take 1 u = str ''/'' then Inr (bs @ str ''://'' @ bn @ u)
               else Inr (bs @ str ''://'' @ bn
                      @ rev (dropWhile (\<lambda>c. c \<noteq> 47) (rev (demo_path base))) @ u)))"

text \<open>
  A stand-in for \<open>get_text(strip=True)\<close> on trees whose strings are all ordinary text (no
  script, style, template or comment): every string is stripped of the characters for
  which \<open>str.isspace()\<close> holds, the empty ones are dropped, the rest are joined with no
  separator.
\<close>

definition is_space :: "nat \<Rightarrow> bool" where
  "is_space c = (c \<in> set [9, 10, 11, 12, 13, 28, 29, 30, 31, 32, 133, 160, 5760,
      8192, 8193, 8194, 8195, 8196, 8197, 8198, 8199, 8200, 8201, 8202,
      8232, 8233, 8239, 8287, 12288])"

definition strip :: "pystr \<Rightarrow> pystr" where
  "strip s = rev (dropWhile is_space (rev (dropWhile is_space s)))"

fun strings :: "node \<Rightarrow> pystr list" where
  "strings (Text s) = [s]"
| "strings (Tag name classes attrs children) = concat (map strings children)"

definition plain_get_text :: "node list \<Rightarrow> pystr" where
  "plain_get_text ns = concat (filter (\<lambda>s. s \<noteq> []) (map strip (concat (map strings ns))))"

text \<open>
  A stand-in for the parser: a table of trees; a text with a surrogate code point cannot
  be encoded for lxml and is the \<open>UnicodeEncodeError\<close>, a \<open>ValueError\<close>.
\<close>

definition is_surrogate :: "nat \<Rightarrow> bool" where
  "is_surrogate c = (55296 \<le> c \<and> c \<le> 57343)"

definition demo_parse :: "(pystr \<times> soup) list \<Rightarrow> pystr \<Rightarrow> exn + soup" where
  "demo_parse trees html =
     (if list_ex is_surrogate html then Inl ValueError
      else Inr (case map_of trees html of None \<Rightarrow> [] | Some d \<Rightarrow> d))"

text \<open>
  A stand-in for \<open>time.sleep\<close>: \<open>ValueError\<close> on a negative length, \<open>OverflowError\<close> on a
  length beyond the range of a 64-bit count of nanoseconds.
\<close>

definition demo_sleep :: "real \<Rightarrow> exn option" where
  "demo_sleep d =
     (if d < 0 then Some ValueError else if 9223372036 < d then Some OverflowError else None)"

text \<open>
  The world: a table of the pages the web serves (every other URL fails with a
  \<open>RequestException\<close>), a table of the trees the parser returns, sets enumerated in
  insertion order, every \<open>random.uniform(a, b)\<close> one quarter of the way from \<open>a\<close> to \<open>b\<close>.
\<close>

definition demo_env :: "(pystr \<times> pystr) list \<Rightarrow> (pystr \<times> soup) list \<Rightarrow> env" where
  "demo_env web trees =
     \<lparr>session_get = (\<lambda>ua t u. case map_of web u of None \<Rightarrow> Inl RequestException | Some b \<Rightarrow> Inr b),
      BeautifulSoup = demo_parse trees,
      tag_get_text = (\<lambda>el. plain_get_text [el]),
      soup_get_text = plain_get_text,
      urljoin = demo_urljoin,
      urlparse = demo_urlparse,
      str_lower = ascii_lower,
      set_order = (\<lambda>s. s),
      random_uniform = (\<lambda>k a b. a + (b - a) / 4),
      time_sleep = demo_sleep,
      clock_now = (\<lambda>k. str ''2024-01-01 00:00:00'')\<rparr>"

definition anchor :: "pystr \<Rightarrow> pystr \<Rightarrow> node" where
  "anchor href text = Tag (str ''a'') [] [(str ''href'', href)] [Text text]"

definition page :: "node list \<Rightarrow> node list \<Rightarrow> soup" where
  "page head body = [Tag (str ''html'') [] [] [Tag (str ''head'') [] [] head, Tag (str ''body'') [] [] body]]"

text \<open>A page text the parser rejects: one lone surrogate, as UTF-7 \<open>+2AA-\<close> decodes to.\<close>

definition broken_text :: pystr where
  "broken_text = [55296]"

text \<open>The anchor text of the end-to-end scenario.\<close>

definition coop_text :: pystr where
  "coop_text = [20135, 23398, 30740, 31614, 32422, 21512, 20316]"

definition demo_trees :: "(pystr \<times> soup) list" where
  "demo_trees =
    [(str ''X-HOME'', page [] [anchor (str ''/news/coop.html'') coop_text]),
     (str ''X-COOP'',
        page [Tag (str ''title'') [] [] [Text (str '' Signing ceremony '')]]
             [Tag (str ''div'') [str ''content''] [] [Text (str ''The agreement was signed.'')]]),
     (str ''B-HOME'',
        page [] [Tag (str ''ul'') [str ''news-list''] []
                   [anchor (str ''http://[bad/news'') (str ''Partnership'')]]),
     (str ''C-LIST cooperation'',
        page [] [anchor (str ''/news/1.html'') (str ''Cooperation one''),
                 anchor (str ''/news/2.html'') (str ''Cooperation two'')]),
     (str ''C-HOME'',
        page [] [anchor (str ''/news/2.html'') (str ''Cooperation two''),
                 anchor (str ''/news/3.html'') (str ''COOPERATION three''),
                 anchor (str ''/info/about.html'') (str ''About us'')]),
     (str ''C-1'', page [Tag (str ''title'') [] [] [Text (str ''One'')]] []),
     (str ''C-2'', page [Tag (str ''title'') [] [] [Text (str ''Two'')]] []),
     (str ''C-3'', page [Tag (str ''title'') [] [] [Text (str ''Three'')]] []),
     (str ''LINKS'',
        page [] [Tag (str ''ul'') [str ''news-list''] []
                   [anchor (str ''/news/1.html'') (str ''Campus news''),
                    anchor (str ''javascript:void(0)'') (str ''Menu'')]]),
     (str ''TWINS'',
        page [] [anchor (str ''/news/1.html'') (str ''Campus news''),
                 anchor (str ''/news/1.html'') (str ''Campus news'')]),
     (str ''PLAIN'', page [] [Tag (str ''p'') [] [] [Text (str '' hello '')]])]"

definition demo_web :: "(pystr \<times> pystr) list" where
  "demo_web =
    [(str ''https://x.edu/'', str ''X-HOME''),
     (str ''https://x.edu/news/coop.html'', str ''X-COOP''),
     (str ''https://b.edu/'', str ''B-HOME''),
     (str ''https://c.edu/news/'', str ''C-LIST cooperation''),
     (str ''https://c.edu/'', str ''C-HOME''),
     (str ''https://c.edu/news/1.html'', str ''C-1''),
     (str ''https://c.edu/news/2.html'', str ''C-2''),
     (str ''https://c.edu/news/3.html'', str ''C-3'')]"

text \<open>A page whose \<open>article\<close> element holds 501 characters, and a parser that returns it.\<close>

definition long_page :: soup where
  "long_page = page [] [Tag (str ''article'') [] [] [Text (replicate 501 97)]]"

definition long_env :: env where
  "long_env = (demo_env [] [])\<lparr>BeautifulSoup := (\<lambda>html. Inr long_page)\<rparr>"

definition demo :: env where
  "demo = demo_env demo_web demo_trees"

text \<open>The site \<open>C\<close> of the world above and the three candidates its crawl finds.\<close>

definition site_c_candidates :: "(pystr \<times> pystr) list" where
  "site_c_candidates =
    [(str ''https://c.edu/news/1.html'', str ''Cooperation one''),
     (str ''https://c.edu/news/2.html'', str ''Cooperation two''),
     (str ''https://c.edu/news/3.html'', str ''COOPERATION three'')]"

definition crawler_c :: "CrawlConfig \<Rightarrow> UniversityNewsCrawler" where
  "crawler_c c = new_crawler DEFAULT_KEYWORDS [(str ''C'', str ''https://c.edu/'')] c"

definition demo_crawler :: "CrawlConfig \<Rightarrow> UniversityNewsCrawler" where
  "demo_crawler c = new_crawler DEFAULT_KEYWORDS [(str ''X'', str ''https://x.edu/'')] c"

section \<open>Basic facts\<close>

lemma str_in_sublist: "str_in needle hay = sublist needle hay"
  by (induction hay) (simp_all add: sublist_Cons_right)

lemma slice_to_nonneg: "0 \<le> n \<Longrightarrow> slice_to xs n = take (nat n) xs"
  by (simp add: slice_to_def)

lemma length_slice_to: "0 \<le> n \<Longrightarrow> int (length (slice_to xs n)) \<le> n"
  by (simp add: slice_to_def)

lemma pick_empty_iff: "pick e doc ss = [] \<longleftrightarrow> (\<forall>s\<in>set ss. yields_no_text e doc s)"
  by (induction ss) (auto simp: yields_no_text_def Let_def split: option.splits)

lemma strip_id: "s \<noteq> [] \<Longrightarrow> \<not> is_space (hd s) \<Longrightarrow> \<not> is_space (last s) \<Longrightarrow> strip s = s"
proof -
  assume ne: "s \<noteq> []" and h: "\<not> is_space (hd s)" and l: "\<not> is_space (last s)"
  from ne h have front: "dropWhile is_space s = s"
    by (cases s) simp_all
  from ne l have "dropWhile is_space (rev s) = rev s"
    by (cases s rule: rev_cases) simp_all
  with front show ?thesis
    by (simp add: strip_def)
qed

lemma extract_content_cases:
  "extract_content e html u =
     (case BeautifulSoup e html of
        Inl err \<Rightarrow> Inl err
      | Inr doc \<Rightarrow>
          Inr \<lparr>art_title = pick e doc (NEWS_CONTENT_SELECTORS Title),
               art_publish_time = pick e doc (NEWS_CONTENT_SELECTORS Time),
               art_content = (if 500 < length (body_text e doc)
                              then take 500 (body_text e doc) @ str ''...''
                              else body_text e doc),
               art_url = u\<rparr>)"
  by (simp add: extract_content_def Let_def slice_to_def split: sum.splits
      del: NEWS_CONTENT_SELECTORS.simps)

lemma long_body: "body_text long_env long_page = replicate 501 97"
proof -
  have s: "strip (replicate 501 97) = replicate 501 97"
    by (rule strip_id) (simp_all add: is_space_def)
  have sel: "select long_page (Simple (ByTag (str ''article'')))
      = [Tag (str ''article'') [] [] [Text (replicate 501 97)]]"
    by (simp add: select_def long_page_def page_def str_def)
  have none: "select long_page (Simple (ByClass c)) = []" for c
    by (simp add: select_def long_page_def page_def)
  show ?thesis
    by (simp add: body_text_def select_one_def sel none long_env_def demo_env_def
        plain_get_text_def s)
qed

section \<open>The keyword filter\<close>

text \<open>
  C4. \<open>_contains_kw\<close> is false for an absent and for an empty text, whatever the keywords;
  for a non-empty text it is true exactly when some keyword, lower-cased, is a substring
  (a contiguous sublist) of the lower-cased text.
\<close>

theorem contains_kw_iff:
  "\<not> contains_kw e self None \<and> \<not> contains_kw e self (Some []) \<and>
   (t \<noteq> [] \<longrightarrow>
      contains_kw e self (Some t) =
        (\<exists>kw\<in>set (crawler_keywords self). sublist (str_lower e kw) (str_lower e t)))"
  by (simp add: contains_kw_def list_ex_iff str_in_sublist)

theorem contains_kw_iff_witness:
  "str ''Cooperation'' \<noteq> [] \<and>
   contains_kw demo (new_crawler [str ''COOPERATION''] [] default_CrawlConfig)
     (Some (str ''Cooperation'')) \<and>
   (\<exists>kw\<in>set [str ''COOPERATION'']. sublist (ascii_lower kw) (ascii_lower (str ''Cooperation''))) \<and>
   \<not> contains_kw demo (new_crawler [str ''COOPERATION''] [] default_CrawlConfig) (Some []) \<and>
   \<not> contains_kw demo (new_crawler [str ''COOPERATION''] [] default_CrawlConfig) None"
proof -
  let ?c = "new_crawler [str ''COOPERATION''] [] default_CrawlConfig"
  have ne: "str ''Cooperation'' \<noteq> []"
    by (simp add: str_def)
  have run: "contains_kw demo ?c (Some (str ''Cooperation''))"
    by code_simp
  have kws: "crawler_keywords ?c = [str ''COOPERATION'']"
    by (simp add: new_crawler_def)
  have low: "str_lower demo = ascii_lower"
    by (simp add: demo_def demo_env_def)
  from contains_kw_iff [of demo ?c "str ''Cooperation''"] ne run kws low
  show ?thesis by simp
qed

section \<open>Content extraction\<close>

text \<open>
  C3. The content field of \<open>_extract_content\<close>: a body text of more than 500 characters
  is cut to its first 500 characters followed by the three-character marker \<open>...\<close>; a
  body text of at most 500 characters is returned as it is. There is a body text
  whenever the parser returns a tree; when the parser raises there is none, and its
  exception is the outcome.
\<close>

theorem extract_content_truncation:
  "(case BeautifulSoup e html of
      Inl err \<Rightarrow> extract_content e html u = Inl err
    | Inr doc \<Rightarrow>
        (\<exists>a. extract_content e html u = Inr a \<and>
           (500 < length (body_text e doc) \<longrightarrow>
              art_content a = take 500 (body_text e doc) @ str ''...'' \<and>
              length (art_content a) = 503) \<and>
           (length (body_text e doc) \<le> 500 \<longrightarrow> art_content a = body_text e doc)))"
  by (simp add: extract_content_cases str_def split: sum.splits del: NEWS_CONTENT_SELECTORS.simps)

theorem extract_content_truncation_witness:
  "BeautifulSoup long_env (str ''LONG'') = Inr long_page \<and>
   length (body_text long_env long_page) = 501 \<and>
   map_sum id art_content (extract_content long_env (str ''LONG'') (str ''https://x.edu/long''))
     = Inr (replicate 500 97 @ str ''...'') \<and>
   body_text demo (page [] [Tag (str ''p'') [] [] [Text (str '' hello '')]]) = str ''hello'' \<and>
   map_sum id art_content (extract_content demo (str ''PLAIN'') (str ''https://x.edu/plain''))
     = Inr (str ''hello'')"
proof -
  let ?plain = "page [] [Tag (str ''p'') [] [] [Text (str '' hello '')]]"
  have parsed_long: "BeautifulSoup long_env (str ''LONG'') = Inr long_page"
    by (simp add: long_env_def)
  have parsed: "BeautifulSoup demo (str ''PLAIN'') = Inr ?plain"
    by code_simp
  have short: "body_text demo ?plain = str ''hello''"
    by code_simp
  have len: "length (str ''hello'') \<le> 500"
    by (simp add: str_def)
  from extract_content_truncation [of long_env "str ''LONG''" "str ''https://x.edu/long''"]
    parsed_long long_body
  have long: "map_sum id art_content
      (extract_content long_env (str ''LONG'') (str ''https://x.edu/long''))
      = Inr (replicate 500 97 @ str ''...'')"
    by auto
  from extract_content_truncation [of demo "str ''PLAIN''" "str ''https://x.edu/plain''"]
    parsed short len
  have "map_sum id art_content (extract_content demo (str ''PLAIN'') (str ''https://x.edu/plain''))
      = Inr (str ''hello'')"
    by auto
  with parsed_long long_body long short show ?thesis by simp
qed

text \<open>
  C7, as stated, fails: \<open>_extract_content\<close> calls the parser with no \<open>try\<close> around it, and
  the parser raises on a text it cannot encode, such as the lone surrogate that a UTF-7
  response decodes to. The exception leaves the method.
\<close>

theorem extract_content_raises_counterexample:
  "BeautifulSoup demo broken_text = Inl ValueError \<and>
   extract_content demo broken_text (str ''https://x.edu/broken'') = Inl ValueError"
  by code_simp

text \<open>
  C7, amended. On every page text for which the parser returns a tree,
  \<open>_extract_content\<close> returns its record of four fields. The url field is the argument;
  when no title selector yields text the title is the empty string, likewise the
  publish time; when no body selector yields text the content is the text of the whole
  page, cut at 500 characters; on a page with no text at all every field but the url is
  empty. On a text for which the parser raises, the parser's exception is the outcome.
\<close>

theorem extract_content_returns:
  "(case BeautifulSoup e html of
      Inl err \<Rightarrow> extract_content e html u = Inl err
    | Inr doc \<Rightarrow>
        (\<exists>a. extract_content e html u = Inr a \<and> art_url a = u \<and>
           ((\<forall>s\<in>set (NEWS_CONTENT_SELECTORS Title). yields_no_text e doc s) \<longrightarrow>
              art_title a = []) \<and>
           ((\<forall>s\<in>set (NEWS_CONTENT_SELECTORS Time). yields_no_text e doc s) \<longrightarrow>
              art_publish_time a = []) \<and>
           ((\<forall>s\<in>set (NEWS_CONTENT_SELECTORS Body). yields_no_text e doc s) \<longrightarrow>
              art_content a =
                (if 500 < length (soup_get_text e doc)
                 then take 500 (soup_get_text e doc) @ str ''...''
                 else soup_get_text e doc))))"
proof (cases "BeautifulSoup e html")
  case (Inl err)
  then show ?thesis by (simp add: extract_content_cases)
next
  case (Inr doc)
  have fallback: "body_text e doc = soup_get_text e doc"
    if "\<forall>s\<in>set (NEWS_CONTENT_SELECTORS Body). yields_no_text e doc s"
    using that pick_empty_iff [of e doc "NEWS_CONTENT_SELECTORS Body"]
    by (simp add: body_text_def Let_def del: NEWS_CONTENT_SELECTORS.simps)
  from Inr fallback pick_empty_iff [of e doc "NEWS_CONTENT_SELECTORS Title"]
    pick_empty_iff [of e doc "NEWS_CONTENT_SELECTORS Time"]
  show ?thesis
    by (simp add: extract_content_cases del: NEWS_CONTENT_SELECTORS.simps)
qed

theorem extract_content_returns_witness:
  "BeautifulSoup demo (str ''PLAIN'')
     = Inr (page [] [Tag (str ''p'') [] [] [Text (str '' hello '')]]) \<and>
   list_all (yields_no_text demo (page [] [Tag (str ''p'') [] [] [Text (str '' hello '')]]))
     (NEWS_CONTENT_SELECTORS Title @ NEWS_CONTENT_SELECTORS Time @ NEWS_CONTENT_SELECTORS Body) \<and>
   extract_content demo (str ''PLAIN'') (str ''https://x.edu/plain'')
     = Inr \<lparr>art_title = [], art_publish_time = [], art_content = str ''hello'',
            art_url = str ''https://x.edu/plain''\<rparr>"
proof -
  let ?doc = "page [] [Tag (str ''p'') [] [] [Text (str '' hello '')]]"
  have parsed: "BeautifulSoup demo (str ''PLAIN'') = Inr ?doc"
    by code_simp
  have none: "list_all (yields_no_text demo ?doc)
      (NEWS_CONTENT_SELECTORS Title @ NEWS_CONTENT_SELECTORS Time @ NEWS_CONTENT_SELECTORS Body)"
    by code_simp
  have whole: "soup_get_text demo ?doc = str ''hello''"
    by code_simp
  have len: "\<not> 500 < length (str ''hello'')"
    by (simp add: str_def)
  from none have hyps:
    "\<forall>s\<in>set (NEWS_CONTENT_SELECTORS Title). yields_no_text demo ?doc s"
    "\<forall>s\<in>set (NEWS_CONTENT_SELECTORS Time). yields_no_text demo ?doc s"
    "\<forall>s\<in>set (NEWS_CONTENT_SELECTORS Body). yields_no_text demo ?doc s"
    by (simp_all add: list_all_iff del: NEWS_CONTENT_SELECTORS.simps)
  from extract_content_returns [of demo "str ''PLAIN''" "str ''https://x.edu/plain''"]
    parsed hyps whole len
  obtain a where a: "extract_content demo (str ''PLAIN'') (str ''https://x.edu/plain'') = Inr a"
    "art_url a = str ''https://x.edu/plain''" "art_title a = []" "art_publish_time a = []"
    "art_content a = str ''hello''"
    by (auto simp del: NEWS_CONTENT_SELECTORS.simps)
  then have "extract_content demo (str ''PLAIN'') (str ''https://x.edu/plain'')
     = Inr \<lparr>art_title = [], art_publish_time = [], art_content = str ''hello'',
            art_url = str ''https://x.edu/plain''\<rparr>"
    by (cases a) simp
  with parsed none show ?thesis by blast
qed

section \<open>Link extraction\<close>

lemma set_foldl_set_add: "set (foldl set_add acc xs) = set acc \<union> set xs"
  by (induction xs arbitrary: acc) (auto simp: set_add_def)

lemma distinct_foldl_set_add: "distinct acc \<Longrightarrow> distinct (foldl set_add acc xs)"
  by (induction xs arbitrary: acc) (auto simp: set_add_def)

lemma list_of_set_props:
  assumes "set_order_ok e"
  shows "distinct (list_of_set e xs)" and "set (list_of_set e xs) = set xs"
proof -
  have "distinct (foldl set_add [] xs)"
    by (rule distinct_foldl_set_add) simp
  with assms show "distinct (list_of_set e xs)" and "set (list_of_set e xs) = set xs"
    by (simp_all add: set_order_ok_def list_of_set_def set_foldl_set_add)
qed

lemma links_of_anchors_append:
  "links_of_anchors e b (as @ bs) acc =
     (case links_of_anchors e b as acc of
        Inl err \<Rightarrow> Inl err
      | Inr links \<Rightarrow> links_of_anchors e b bs links)"
  by (induction as arbitrary: acc) (simp_all split: sum.splits option.splits)

lemma links_of_selectors_flat:
  "links_of_selectors e b doc sels acc = links_of_anchors e b (concat (map (select doc) sels)) acc"
  by (induction sels arbitrary: acc) (simp_all add: links_of_anchors_append split: sum.splits)

lemma links_of_anchors_set:
  "links_of_anchors e b as acc = Inr links \<Longrightarrow>
     set links = set acc \<union> {l. \<exists>a\<in>set as. anchor_link e b a = Inr (Some l)}"
proof (induction as arbitrary: acc)
  case Nil
  then show ?case by simp
next
  case (Cons a as)
  show ?case
  proof (cases "anchor_link e b a")
    case (Inl err)
    with Cons.prems show ?thesis by simp
  next
    case (Inr r)
    show ?thesis
    proof (cases r)
      case None
      with Inr Cons.prems have "links_of_anchors e b as acc = Inr links" by simp
      from Cons.IH [OF this] Inr None show ?thesis by auto
    next
      case (Some l)
      with Inr Cons.prems have "links_of_anchors e b as (acc @ [l]) = Inr links" by simp
      from Cons.IH [OF this] Inr Some show ?thesis by auto
    qed
  qed
qed

lemma extract_links_set:
  assumes "set_order_ok e" and "extract_links e html b = Inr links"
  shows "\<exists>doc. BeautifulSoup e html = Inr doc \<and>
           set links = {l. \<exists>a\<in>set (link_anchors doc). anchor_link e b a = Inr (Some l)}"
    and "distinct links"
proof -
  from assms(2) obtain doc raw where doc: "BeautifulSoup e html = Inr doc"
    and raw: "links_of_selectors e b doc NEWS_LINK_SELECTORS [] = Inr raw"
    and links: "links = list_of_set e raw"
    by (auto simp: extract_links_def split: sum.splits)
  from raw have "set raw = {l. \<exists>a\<in>set (link_anchors doc). anchor_link e b a = Inr (Some l)}"
    using links_of_anchors_set [of e b "link_anchors doc" "[]" raw]
    by (simp add: links_of_selectors_flat link_anchors_def)
  with doc links list_of_set_props [OF assms(1)]
  show "\<exists>doc. BeautifulSoup e html = Inr doc \<and>
           set links = {l. \<exists>a\<in>set (link_anchors doc). anchor_link e b a = Inr (Some l)}"
    and "distinct links"
    by simp_all
qed

lemma anchor_link_Some:
  assumes "anchor_link e b a = Inr (Some (u, t))"
  shows "is_valid_url e u" and "t = tag_get_text e a" and "t \<noteq> []"
    and "\<exists>href. el_get a (str ''href'') = Some href \<and> href \<noteq> [] \<and> urljoin e b href = Inr u"
  using assms
  by (auto simp: anchor_link_def Let_def split: option.splits if_splits sum.splits)

lemma is_valid_url_iff:
  "is_valid_url e u \<longleftrightarrow>
     (\<exists>scheme netloc. urlparse e u = Inr (scheme, netloc) \<and> scheme \<noteq> [] \<and> netloc \<noteq> [])"
  by (auto simp: is_valid_url_def split: sum.splits)

lemma demo_set_order_ok: "set_order_ok (demo_env web trees)"
  by (simp add: set_order_ok_def demo_env_def)

lemma count_list_distinct: "distinct xs \<Longrightarrow> x \<in> set xs \<Longrightarrow> count_list xs x = 1"
  by (induction xs) auto

text \<open>
  C5. Every pair \<open>_extract_links\<close> returns has a URL for which \<open>urlparse\<close> gives a
  non-empty scheme and a non-empty host, and that URL is the \<open>urljoin\<close> of the base URL
  with the \<open>href\<close> of one of the anchors selected, the text being that anchor's text. An
  anchor whose resolved URL lacks a scheme or a host contributes no pair; it is passed
  over without an exception. (A page on which the parser raises, or an \<open>href\<close> on which
  \<open>urljoin\<close> itself raises, is another matter: then the method returns no list at all.)
\<close>

theorem extract_links_valid:
  assumes "set_order_ok e" and "extract_links e html base_url = Inr links"
  shows "\<exists>doc. BeautifulSoup e html = Inr doc \<and>
         (\<forall>(u, t)\<in>set links.
            (\<exists>scheme netloc. urlparse e u = Inr (scheme, netloc) \<and> scheme \<noteq> [] \<and> netloc \<noteq> []) \<and>
            (\<exists>a\<in>set (link_anchors doc). \<exists>href.
                el_get a (str ''href'') = Some href \<and> urljoin e base_url href = Inr u \<and>
                tag_get_text e a = t)) \<and>
         (\<forall>a\<in>set (link_anchors doc). \<forall>href full.
            el_get a (str ''href'') = Some href \<and> urljoin e base_url href = Inr full \<and>
            \<not> is_valid_url e full \<longrightarrow> full \<notin> fst ` set links)"
proof -
  from extract_links_set(1) [OF assms] obtain doc where doc: "BeautifulSoup e html = Inr doc"
    and links: "set links = {l. \<exists>a\<in>set (link_anchors doc). anchor_link e base_url a = Inr (Some l)}"
    by blast
  let ?as = "link_anchors doc"
  have mem: "\<exists>a\<in>set ?as. anchor_link e base_url a = Inr (Some (u, t))" if "(u, t) \<in> set links" for u t
    using that links by simp
  have valid: "is_valid_url e u" if "(u, t) \<in> set links" for u t
    using mem [OF that] anchor_link_Some(1) by blast
  have origin: "\<exists>a\<in>set ?as. \<exists>href.
      el_get a (str ''href'') = Some href \<and> urljoin e base_url href = Inr u \<and> tag_get_text e a = t"
    if "(u, t) \<in> set links" for u t
  proof -
    from mem [OF that] obtain a where a: "a \<in> set ?as" "anchor_link e base_url a = Inr (Some (u, t))"
      by blast
    from anchor_link_Some(2,4) [OF a(2)] a(1) show ?thesis by blast
  qed
  have first: "\<forall>(u, t)\<in>set links.
      (\<exists>scheme netloc. urlparse e u = Inr (scheme, netloc) \<and> scheme \<noteq> [] \<and> netloc \<noteq> []) \<and>
      (\<exists>a\<in>set ?as. \<exists>href.
          el_get a (str ''href'') = Some href \<and> urljoin e base_url href = Inr u \<and>
          tag_get_text e a = t)"
    using valid origin by (auto simp: is_valid_url_iff)
  have second: "\<forall>a\<in>set ?as. \<forall>href full.
      el_get a (str ''href'') = Some href \<and> urljoin e base_url href = Inr full \<and>
      \<not> is_valid_url e full \<longrightarrow> full \<notin> fst ` set links"
    using valid by force
  from doc first second show ?thesis by blast
qed

theorem extract_links_valid_witness:
  "set_order_ok demo \<and>
   extract_links demo (str ''LINKS'') (str ''https://x.edu/'')
     = Inr [(str ''https://x.edu/news/1.html'', str ''Campus news'')] \<and>
   (\<exists>scheme netloc. urlparse demo (str ''https://x.edu/news/1.html'') = Inr (scheme, netloc)
       \<and> scheme \<noteq> [] \<and> netloc \<noteq> []) \<and>
   (\<exists>doc. BeautifulSoup demo (str ''LINKS'') = Inr doc \<and>
      anchor (str ''javascript:void(0)'') (str ''Menu'') \<in> set (link_anchors doc)) \<and>
   urljoin demo (str ''https://x.edu/'') (str ''javascript:void(0)'') = Inr (str ''javascript:void(0)'') \<and>
   urlparse demo (str ''javascript:void(0)'') = Inr (str ''javascript'', [])"
proof -
  have ok: "set_order_ok demo"
    by (simp add: demo_def demo_set_order_ok)
  have run: "extract_links demo (str ''LINKS'') (str ''https://x.edu/'')
      = Inr [(str ''https://x.edu/news/1.html'', str ''Campus news'')]"
    by code_simp
  have "case BeautifulSoup demo (str ''LINKS'') of
      Inl err \<Rightarrow> False
    | Inr doc \<Rightarrow> anchor (str ''javascript:void(0)'') (str ''Menu'') \<in> set (link_anchors doc)"
    by code_simp
  then have menu: "\<exists>doc. BeautifulSoup demo (str ''LINKS'') = Inr doc \<and>
      anchor (str ''javascript:void(0)'') (str ''Menu'') \<in> set (link_anchors doc)"
    by (cases "BeautifulSoup demo (str ''LINKS'')") simp_all
  have js: "urljoin demo (str ''https://x.edu/'') (str ''javascript:void(0)'') = Inr (str ''javascript:void(0)'')"
      "urlparse demo (str ''javascript:void(0)'') = Inr (str ''javascript'', [])"
    by code_simp+
  from extract_links_valid [OF ok run]
  have "\<exists>scheme netloc. urlparse demo (str ''https://x.edu/news/1.html'') = Inr (scheme, netloc)
       \<and> scheme \<noteq> [] \<and> netloc \<noteq> []"
    by auto
  with ok run menu js show ?thesis by blast
qed

text \<open>
  C8. The list \<open>_extract_links\<close> returns holds no pair twice: a pair produced by one or by
  several of the selected anchors occurs in it exactly once. Pairs are compared by
  equality of both components.
\<close>

theorem extract_links_distinct:
  assumes "set_order_ok e" and "extract_links e html base_url = Inr links"
  shows "distinct links \<and>
         (\<exists>doc. BeautifulSoup e html = Inr doc \<and>
            (\<forall>a\<in>set (link_anchors doc). \<forall>l.
               anchor_link e base_url a = Inr (Some l) \<longrightarrow> count_list links l = 1))"
proof -
  from extract_links_set [OF assms] obtain doc where d: "distinct links"
    and doc: "BeautifulSoup e html = Inr doc"
    and s: "set links = {l. \<exists>a\<in>set (link_anchors doc). anchor_link e base_url a = Inr (Some l)}"
    by blast
  have "count_list links l = 1" if "l \<in> set links" for l
    using that d by (rule count_list_distinct [rotated])
  with d doc s show ?thesis by blast
qed

theorem extract_links_distinct_witness:
  "set_order_ok demo \<and>
   map_sum id link_anchors (BeautifulSoup demo (str ''TWINS''))
     = Inr [anchor (str ''/news/1.html'') (str ''Campus news''),
            anchor (str ''/news/1.html'') (str ''Campus news'')] \<and>
   extract_links demo (str ''TWINS'') (str ''https://x.edu/'')
     = Inr [(str ''https://x.edu/news/1.html'', str ''Campus news'')] \<and>
   distinct [(str ''https://x.edu/news/1.html'', str ''Campus news'')]"
proof -
  have ok: "set_order_ok demo"
    by (simp add: demo_def demo_set_order_ok)
  have twins: "map_sum id link_anchors (BeautifulSoup demo (str ''TWINS''))
     = Inr [anchor (str ''/news/1.html'') (str ''Campus news''),
            anchor (str ''/news/1.html'') (str ''Campus news'')]"
    by code_simp
  have run: "extract_links demo (str ''TWINS'') (str ''https://x.edu/'')
      = Inr [(str ''https://x.edu/news/1.html'', str ''Campus news'')]"
    by code_simp
  from extract_links_distinct [OF ok run] ok twins run show ?thesis by blast
qed

section \<open>What the crawl leaves unchanged\<close>

text \<open>No method of the crawler touches the configuration, the keywords or the sites.\<close>

lemma get_frame:
  "get e self u = (r, self') \<Longrightarrow>
     cfg self' = cfg self \<and> crawler_keywords self' = crawler_keywords self \<and>
     sites self' = sites self \<and> rows self' = rows self \<and> ticks self' = ticks self"
  by (auto simp: get_def split: sum.splits exn.splits)

lemma contains_kw_cong:
  "crawler_keywords self' = crawler_keywords self \<Longrightarrow> contains_kw e self' = contains_kw e self"
  by (rule ext) (auto simp: contains_kw_def split: option.splits)

lemma listing_candidates_frame:
  "listing_candidates e b pats cands self = (r, self') \<Longrightarrow>
     cfg self' = cfg self \<and> crawler_keywords self' = crawler_keywords self \<and>
     sites self' = sites self \<and> rows self' = rows self \<and> ticks self' = ticks self"
proof (induction e b pats cands self rule: listing_candidates.induct)
  case (1 e base_url candidates self)
  then show ?case by simp
next
  case (2 e base_url pat pats candidates self)
  show ?case
  proof (cases "urljoin e base_url pat")
    case (Inl err)
    with "2.prems" show ?thesis by simp
  next
    case (Inr u)
    obtain g s1 where g: "get e self u = (g, s1)"
      by (cases "get e self u")
    note f1 = get_frame [OF g]
    show ?thesis
    proof (cases g)
      case (Inl err)
      with "2.prems" Inr g f1 show ?thesis by simp
    next
      case r: (Inr page)
      show ?thesis
      proof (cases page)
        case None
        with "2.prems" Inr g r have "listing_candidates e base_url pats candidates s1 = (r, self')"
          by simp
        from "2.IH"(1) [OF Inr g [symmetric] r None this] f1 show ?thesis by simp
      next
        case (Some html)
        show ?thesis
        proof (cases "html = []")
          case True
          with "2.prems" Inr g r Some
          have "listing_candidates e base_url pats candidates s1 = (r, self')"
            by simp
          from "2.IH"(2) [OF Inr g [symmetric] r Some True this] f1 show ?thesis by simp
        next
          case False
          show ?thesis
          proof (cases "contains_kw e s1 (Some html)")
            case kw: True
            show ?thesis
            proof (cases "extract_links e html base_url")
              case (Inl err)
              with "2.prems" Inr g r Some False kw f1 show ?thesis by simp
            next
              case l: (Inr links)
              with "2.prems" Inr g r Some False kw
              have "listing_candidates e base_url pats (candidates @ links) s1 = (r, self')"
                by simp
              from "2.IH"(3) [OF Inr g [symmetric] r Some False kw l this] f1
              show ?thesis by simp
            qed
          next
            case kw: False
            with "2.prems" Inr g r Some False
            have "listing_candidates e base_url pats candidates s1 = (r, self')"
              by simp
            from "2.IH"(4) [OF Inr g [symmetric] r Some False kw this] f1 show ?thesis by simp
          qed
        qed
      qed
    qed
  qed
qed

lemma home_candidates_frame:
  "home_candidates e b cands self = (r, self') \<Longrightarrow>
     cfg self' = cfg self \<and> crawler_keywords self' = crawler_keywords self \<and>
     sites self' = sites self \<and> rows self' = rows self \<and> ticks self' = ticks self"
proof -
  assume h: "home_candidates e b cands self = (r, self')"
  obtain g s1 where g: "get e self b = (g, s1)"
    by (cases "get e self b")
  from h g have "self' = s1"
    by (auto simp: home_candidates_def split: sum.splits option.splits if_splits)
  with get_frame [OF g] show ?thesis by simp
qed

lemma site_candidates_frame:
  "site_candidates e self name b = (r, self') \<Longrightarrow>
     cfg self' = cfg self \<and> crawler_keywords self' = crawler_keywords self \<and>
     sites self' = sites self \<and> rows self' = rows self \<and> ticks self' = ticks self"
proof -
  assume h: "site_candidates e self name b = (r, self')"
  let ?s1 = "self\<lparr>log := log self @ [Info_crawling name]\<rparr>"
  obtain l s2 where l: "listing_candidates e b NEWS_LIST_PATTERNS [] ?s1 = (l, s2)"
    by (cases "listing_candidates e b NEWS_LIST_PATTERNS [] ?s1")
  note f2 = listing_candidates_frame [OF l]
  show ?thesis
  proof (cases l)
    case (Inl err)
    with h l have "self' = s2" by (simp add: site_candidates_def)
    with f2 show ?thesis by simp
  next
    case (Inr cands)
    obtain hc s3 where hc: "home_candidates e b cands s2 = (hc, s3)"
      by (cases "home_candidates e b cands s2")
    note f3 = home_candidates_frame [OF hc]
    from h l Inr hc have
      "self' = s3 \<or> (\<exists>n. self' = s3\<lparr>log := log s3 @ [Info_candidates name n]\<rparr>)"
      by (auto simp: site_candidates_def Let_def split: sum.splits)
    with f2 f3 show ?thesis by auto
  qed
qed

lemma visit_frame:
  "visit e name cs self = (r, self') \<Longrightarrow>
     cfg self' = cfg self \<and> crawler_keywords self' = crawler_keywords self \<and>
     sites self' = sites self"
proof (induction cs arbitrary: self)
  case Nil
  then show ?case by simp
next
  case (Cons c cs)
  obtain u t where c: "c = (u, t)" by (cases c)
  obtain g s1 where g: "get e self u = (g, s1)"
    by (cases "get e self u")
  note f1 = get_frame [OF g]
  from Cons.prems c g have
    "self' = s1 \<or> visit e name cs s1 = (r, self') \<or>
     (\<exists>rw. self' = s1\<lparr>rows := rows s1 @ [rw], ticks := Suc (ticks s1)\<rparr>) \<or>
     (\<exists>rw. visit e name cs (s1\<lparr>rows := rows s1 @ [rw], ticks := Suc (ticks s1)\<rparr>) = (r, self'))"
    by (auto simp: Let_def split: sum.splits option.splits if_splits)
  then show ?case
  proof (elim disjE exE)
    assume "self' = s1"
    with f1 show ?thesis by simp
  next
    assume "visit e name cs s1 = (r, self')"
    from Cons.IH [OF this] f1 show ?thesis by simp
  next
    fix rw assume "self' = s1\<lparr>rows := rows s1 @ [rw], ticks := Suc (ticks s1)\<rparr>"
    with f1 show ?thesis by simp
  next
    fix rw
    assume "visit e name cs (s1\<lparr>rows := rows s1 @ [rw], ticks := Suc (ticks s1)\<rparr>) = (r, self')"
    from Cons.IH [OF this] f1 show ?thesis by simp
  qed
qed

lemma crawl_site_frame:
  "crawl_site e self name b = (r, self') \<Longrightarrow>
     cfg self' = cfg self \<and> crawler_keywords self' = crawler_keywords self \<and>
     sites self' = sites self"
proof -
  assume h: "crawl_site e self name b = (r, self')"
  obtain c s1 where c: "site_candidates e self name b = (c, s1)"
    by (cases "site_candidates e self name b")
  note f1 = site_candidates_frame [OF c]
  show ?thesis
  proof (cases c)
    case (Inl err)
    with h c f1 show ?thesis by (simp add: crawl_site_def)
  next
    case (Inr filtered)
    with h c have "visit e name (slice_to filtered (max_per_site (cfg s1))) s1 = (r, self')"
      by (simp add: crawl_site_def)
    from visit_frame [OF this] f1 show ?thesis by simp
  qed
qed

lemma crawl_loop_frame:
  "cfg (crawl_loop e ss self) = cfg self \<and>
   crawler_keywords (crawl_loop e ss self) = crawler_keywords self \<and>
   sites (crawl_loop e ss self) = sites self"
proof (induction ss arbitrary: self)
  case Nil
  then show ?case by simp
next
  case (Cons s ss)
  obtain name u where s: "s = (name, u)" by (cases s)
  obtain r s1 where c: "crawl_site e self name u = (r, s1)"
    by (cases "crawl_site e self name u")
  note f = crawl_site_frame [OF c]
  show ?case
  proof (cases r)
    case None
    with s c f Cons.IH [of s1] show ?thesis by simp
  next
    case (Some err)
    with s c f Cons.IH [of "s1\<lparr>log := log s1 @ [Error_on name err]\<rparr>"] show ?thesis by simp
  qed
qed

section \<open>The configuration\<close>

text \<open>
  C6, as stated, fails: the dataclass and \<open>main\<close> check nothing, so the command line
  \<open>--max-per-site -1 --delay-min 5 --delay-max 1 --timeout 0\<close> builds a configuration
  that breaks every part of the invariant.
\<close>

theorem main_cfg_counterexample:
  "\<not> cfg_invariant (cfg (main_crawler
       \<lparr>arg_max_per_site = - 1, arg_delay_min = 5, arg_delay_max = 1, arg_timeout = 0\<rparr>
       DEFAULT_SITES))"
  by (simp add: cfg_invariant_def main_crawler_def main_cfg_def new_crawler_def default_CrawlConfig_def)

text \<open>
  C6, amended. The default configuration satisfies the invariant; the configuration
  \<open>main\<close> builds satisfies it exactly when the four options given do; and neither
  \<open>crawl_site\<close> nor \<open>crawl\<close> changes the configuration, so an invariant that holds before
  a crawl holds after it.
\<close>

theorem cfg_unchanged:
  "cfg_invariant default_CrawlConfig \<and>
   cfg (main_crawler a ss) = main_cfg a \<and>
   cfg_invariant (main_cfg a)
     = (arg_delay_min a \<le> arg_delay_max a \<and> 0 \<le> arg_delay_max a \<and> 0 < arg_timeout a
        \<and> 0 \<le> arg_max_per_site a) \<and>
   cfg (snd (crawl_site e self name u)) = cfg self \<and>
   cfg (snd (crawl e self sites_arg)) = cfg self \<and>
   cfg (snd (main_crawl e a ss)) = main_cfg a"
proof -
  have a: "cfg_invariant default_CrawlConfig"
    by (simp add: cfg_invariant_def default_CrawlConfig_def)
  have b: "cfg (main_crawler a ss) = main_cfg a"
    by (simp add: main_crawler_def new_crawler_def)
  have c: "cfg_invariant (main_cfg a)
     = (arg_delay_min a \<le> arg_delay_max a \<and> 0 \<le> arg_delay_max a \<and> 0 < arg_timeout a
        \<and> 0 \<le> arg_max_per_site a)"
    by (simp add: cfg_invariant_def main_cfg_def)
  have d: "cfg (snd (crawl_site e self name u)) = cfg self"
    using crawl_site_frame [of e self name u] by (cases "crawl_site e self name u") simp
  have f: "cfg (snd (crawl e c sites_arg)) = cfg c" for c sites_arg
    by (simp add: crawl_def Let_def crawl_loop_frame)
  from b f [of "main_crawler a ss" None] have g: "cfg (snd (main_crawl e a ss)) = main_cfg a"
    by (simp add: main_crawl_def)
  from a b c d f [of self sites_arg] g show ?thesis by blast
qed

theorem cfg_unchanged_witness:
  "cfg_invariant (main_cfg
       \<lparr>arg_max_per_site = 10, arg_delay_min = 1, arg_delay_max = 3, arg_timeout = 10\<rparr>) \<and>
   cfg (snd (main_crawl demo
       \<lparr>arg_max_per_site = 10, arg_delay_min = 1, arg_delay_max = 3, arg_timeout = 10\<rparr>
       DEFAULT_SITES)) = default_CrawlConfig \<and>
   cfg_invariant (cfg (snd (main_crawl demo
       \<lparr>arg_max_per_site = 10, arg_delay_min = 1, arg_delay_max = 3, arg_timeout = 10\<rparr>
       DEFAULT_SITES)))"
proof -
  let ?a = "\<lparr>arg_max_per_site = 10, arg_delay_min = 1, arg_delay_max = 3, arg_timeout = 10\<rparr>"
  have same: "main_cfg ?a = default_CrawlConfig"
    by (simp add: main_cfg_def default_CrawlConfig_def)
  from cfg_unchanged [of ?a DEFAULT_SITES demo "main_crawler ?a DEFAULT_SITES" "[]" "[]" None] same
  show ?thesis by simp
qed

section \<open>The orchestrator\<close>

lemma demo_run:
  "fst (crawl demo (demo_crawler (default_CrawlConfig\<lparr>max_per_site := 5\<rparr>)) None)
     = [\<lparr>university = str ''X'', title = str ''Signing ceremony'', publish_time = [],
         content = str ''The agreement was signed.'', url = str ''https://x.edu/news/coop.html'',
         link_text = coop_text, crawl_time = str ''2024-01-01 00:00:00''\<rparr>]"
  by code_simp

text \<open>
  C10. \<open>crawl\<close> called with an empty mapping does what \<open>crawl\<close> called with no argument
  does: it crawls the sites the crawler was configured with, since \<open>sites or self.sites\<close>
  tests the argument for truth, not for \<open>None\<close>.
\<close>

theorem crawl_empty_sites:
  "crawl e self (Some []) = crawl e self None \<and>
   crawl e self (Some []) = crawl e self (Some (sites self)) \<and>
   fst (crawl e self (Some [])) = rows (crawl_loop e (sites self) self)"
  by (simp add: crawl_def Let_def)

theorem crawl_empty_sites_witness:
  "sites (demo_crawler (default_CrawlConfig\<lparr>max_per_site := 5\<rparr>)) = [(str ''X'', str ''https://x.edu/'')] \<and>
   fst (crawl demo (demo_crawler (default_CrawlConfig\<lparr>max_per_site := 5\<rparr>)) (Some []))
     = [\<lparr>university = str ''X'', title = str ''Signing ceremony'', publish_time = [],
         content = str ''The agreement was signed.'', url = str ''https://x.edu/news/coop.html'',
         link_text = coop_text, crawl_time = str ''2024-01-01 00:00:00''\<rparr>]"
  using crawl_empty_sites [of demo "demo_crawler (default_CrawlConfig\<lparr>max_per_site := 5\<rparr>)"] demo_run
  by (simp add: demo_crawler_def new_crawler_def)

section \<open>The site crawler\<close>

text \<open>One round of the last loop of \<open>crawl_site\<close>, and what the whole loop appends.\<close>

lemma visit_step:
  assumes "visit e name ((u, t) # cs) self = (r, self')" and "get e self u = (g, s1)"
  shows "(\<exists>err. r = Some err \<and> self' = s1) \<or>
         visit e name cs s1 = (r, self') \<or>
         (\<exists>rw. university rw = name \<and>
            (self' = s1\<lparr>rows := rows s1 @ [rw], ticks := Suc (ticks s1)\<rparr> \<or>
             visit e name cs (s1\<lparr>rows := rows s1 @ [rw], ticks := Suc (ticks s1)\<rparr>) = (r, self')))"
proof (cases g)
  case (Inl err)
  with assms show ?thesis by auto
next
  case (Inr p)
  show ?thesis
  proof (cases p)
    case None
    with assms Inr show ?thesis by simp
  next
    case (Some html)
    show ?thesis
    proof (cases "html = []")
      case True
      with assms Inr Some show ?thesis by simp
    next
      case False
      show ?thesis
      proof (cases "extract_content e html u")
        case (Inl err)
        with assms Inr Some False show ?thesis by auto
      next
        case data: (Inr data)
        let ?rw = "\<lparr>university = name, title = art_title data,
            publish_time = art_publish_time data, content = art_content data,
            url = art_url data, link_text = t, crawl_time = clock_now e (ticks s1)\<rparr>"
        let ?s2 = "s1\<lparr>rows := rows s1 @ [?rw], ticks := Suc (ticks s1)\<rparr>"
        from assms Inr Some False data
        have "self' = ?s2 \<or> visit e name cs ?s2 = (r, self')"
          by (simp add: Let_def split: option.splits)
        moreover have "university ?rw = name" by simp
        ultimately show ?thesis by blast
      qed
    qed
  qed
qed

lemma visit_rows:
  "visit e name cs self = (r, self') \<Longrightarrow>
     \<exists>new. rows self' = rows self @ new \<and> length new \<le> length cs \<and>
           (\<forall>rw\<in>set new. university rw = name)"
proof (induction cs arbitrary: self)
  case Nil
  then show ?case by simp
next
  case (Cons c cs)
  obtain u t where c: "c = (u, t)" by (cases c)
  obtain g s1 where g: "get e self u = (g, s1)"
    by (cases "get e self u")
  from get_frame [OF g] have same: "rows s1 = rows self" by simp
  from Cons.prems c have "visit e name ((u, t) # cs) self = (r, self')" by simp
  from visit_step [OF this g] show ?case
  proof (elim disjE exE conjE)
    fix err assume "self' = s1"
    with same show ?thesis by simp
  next
    assume "visit e name cs s1 = (r, self')"
    from Cons.IH [OF this] same show ?thesis by auto
  next
    fix rw
    assume "university rw = name"
      and "self' = s1\<lparr>rows := rows s1 @ [rw], ticks := Suc (ticks s1)\<rparr>"
    with same have "rows self' = rows self @ [rw] \<and> length [rw] \<le> length (c # cs) \<and>
        (\<forall>x\<in>set [rw]. university x = name)"
      by simp
    then show ?thesis by blast
  next
    fix rw
    assume rw: "university rw = name"
      and "visit e name cs (s1\<lparr>rows := rows s1 @ [rw], ticks := Suc (ticks s1)\<rparr>) = (r, self')"
    from Cons.IH [OF this(2)] obtain new where
      new: "rows self' = (rows s1 @ [rw]) @ new" "length new \<le> length cs"
        "\<forall>x\<in>set new. university x = name"
      by auto
    with rw same have "rows self' = rows self @ (rw # new) \<and>
        length (rw # new) \<le> length (c # cs) \<and> (\<forall>x\<in>set (rw # new). university x = name)"
      by simp
    then show ?thesis by blast
  qed
qed

lemma get_fetchable:
  "fetchable e self u \<Longrightarrow>
     \<exists>html doc. html \<noteq> [] \<and> get e self u = (Inr (Some html), self) \<and>
       BeautifulSoup e html = Inr doc"
  by (auto simp: fetchable_def get_def split: sum.splits)

lemma fetchable_cong: "cfg self' = cfg self \<Longrightarrow> fetchable e self' = fetchable e self"
  by (rule ext) (simp add: fetchable_def)

lemma sleeps_return_cong:
  "cfg self' = cfg self \<Longrightarrow> sleeps_return e self' = sleeps_return e self"
  by (simp add: sleeps_return_def)

lemma visit_all_fetchable:
  "list_all (\<lambda>(u, t). fetchable e self u) cs \<Longrightarrow> sleeps_return e self \<Longrightarrow>
     \<exists>self' new. visit e name cs self = (None, self') \<and> rows self' = rows self @ new \<and>
       map url new = map fst cs \<and> map link_text new = map snd cs"
proof (induction cs arbitrary: self)
  case Nil
  then show ?case by simp
next
  case (Cons c cs)
  obtain u t where c: "c = (u, t)" by (cases c)
  from Cons.prems(1) c have fu: "fetchable e self u"
    and rest: "list_all (\<lambda>(u, t). fetchable e self u) cs"
    by simp_all
  from get_fetchable [OF fu] obtain html doc where
    html: "html \<noteq> []" "get e self u = (Inr (Some html), self)"
    and doc: "BeautifulSoup e html = Inr doc"
    by blast
  from doc obtain data where data: "extract_content e html u = Inr data" "art_url data = u"
    by (simp add: extract_content_cases)
  let ?rw = "\<lparr>university = name, title = art_title data,
      publish_time = art_publish_time data, content = art_content data,
      url = art_url data, link_text = t, crawl_time = clock_now e (ticks self)\<rparr>"
  let ?s2 = "self\<lparr>rows := rows self @ [?rw], ticks := Suc (ticks self)\<rparr>"
  from Cons.prems(2)
  have d: "time_sleep e (random_uniform e (ticks self) (delay_min (cfg self)) (delay_max (cfg self)))
      = None"
    by (simp add: sleeps_return_def)
  from html data(1) d c have step: "visit e name (c # cs) self = visit e name cs ?s2"
    by (simp add: Let_def)
  have same: "cfg ?s2 = cfg self" by simp
  from rest have f2: "list_all (\<lambda>(u, t). fetchable e ?s2 u) cs"
    by (simp add: fetchable_cong [OF same])
  from Cons.prems(2) have s2: "sleeps_return e ?s2"
    by (simp add: sleeps_return_cong [OF same])
  from Cons.IH [OF f2 s2] obtain self' new where
    v: "visit e name cs ?s2 = (None, self')" and
    new: "rows self' = rows ?s2 @ new" "map url new = map fst cs" "map link_text new = map snd cs"
    by auto
  from step v new c data(2) have "visit e name (c # cs) self = (None, self') \<and>
      rows self' = rows self @ (?rw # new) \<and>
      map url (?rw # new) = map fst (c # cs) \<and> map link_text (?rw # new) = map snd (c # cs)"
    by simp
  then show ?case by blast
qed

lemma demo_sleeps_return:
  "delay_min (cfg self) = 1 \<Longrightarrow> delay_max (cfg self) = 3 \<Longrightarrow>
   sleeps_return (demo_env web trees) self"
  by (simp add: sleeps_return_def demo_env_def demo_sleep_def)

lemma site_c_found:
  "fst (site_candidates demo (crawler_c (default_CrawlConfig\<lparr>max_per_site := 2\<rparr>))
         (str ''C'') (str ''https://c.edu/'')) = Inr site_c_candidates"
  by code_simp

lemma site_c_fetchable:
  "list_all (\<lambda>(u, t). fetchable demo (crawler_c (default_CrawlConfig\<lparr>max_per_site := 2\<rparr>)) u)
     site_c_candidates"
  by code_simp

lemma negative_cap_run:
  "length (rows (snd (crawl_site demo (crawler_c (default_CrawlConfig\<lparr>max_per_site := - 1\<rparr>))
      (str ''C'') (str ''https://c.edu/'')))) = 2"
  by code_simp

lemma negative_delay_found:
  "fst (site_candidates demo
      (crawler_c (default_CrawlConfig\<lparr>max_per_site := 2, delay_min := - 1, delay_max := 1\<rparr>))
      (str ''C'') (str ''https://c.edu/'')) = Inr site_c_candidates"
  by code_simp

lemma negative_delay_fetchable:
  "list_all (\<lambda>(u, t). fetchable demo
      (crawler_c (default_CrawlConfig\<lparr>max_per_site := 2, delay_min := - 1, delay_max := 1\<rparr>)) u)
     site_c_candidates"
  by code_simp

lemma negative_delay_run:
  "crawl_site demo
      (crawler_c (default_CrawlConfig\<lparr>max_per_site := 2, delay_min := - 1, delay_max := 1\<rparr>))
      (str ''C'') (str ''https://c.edu/'')
   = (Some ValueError,
      snd (crawl_site demo
        (crawler_c (default_CrawlConfig\<lparr>max_per_site := 2, delay_min := - 1, delay_max := 1\<rparr>))
        (str ''C'') (str ''https://c.edu/''))) \<and>
   length (rows (snd (crawl_site demo
      (crawler_c (default_CrawlConfig\<lparr>max_per_site := 2, delay_min := - 1, delay_max := 1\<rparr>))
      (str ''C'') (str ''https://c.edu/'')))) = 1"
  by code_simp

text \<open>
  A delay too large for \<open>time.sleep\<close> ends the site after its first row as well.
\<close>

lemma large_delay_run:
  "fst (crawl_site demo
      (crawler_c (default_CrawlConfig\<lparr>max_per_site := 2, delay_min := 10000000000,
         delay_max := 10000000000\<rparr>))
      (str ''C'') (str ''https://c.edu/'')) = Some OverflowError \<and>
   length (rows (snd (crawl_site demo
      (crawler_c (default_CrawlConfig\<lparr>max_per_site := 2, delay_min := 10000000000,
         delay_max := 10000000000\<rparr>))
      (str ''C'') (str ''https://c.edu/'')))) = 1"
  by code_simp

text \<open>
  C1, as stated, fails in two ways, both open to the command line. With
  \<open>--max-per-site -1\<close> the slice \<open>filtered[:-1]\<close> drops the last candidate only: of the
  three candidates of site \<open>C\<close> two are visited and two rows are produced, more than the
  cap. With \<open>--max-per-site 2 --delay-min -1 --delay-max 1\<close>, a configuration that meets
  the invariant of the specification, the first random delay is negative, \<open>time.sleep\<close>
  raises \<open>ValueError\<close> after the first row, and the site ends with one row although all
  three candidates match and fetch. (A delay too large for \<open>time.sleep\<close>, or a page the
  parser rejects, ends the site early in the same way.)
\<close>

theorem crawl_site_cap_counterexample:
  "max_per_site (cfg (crawler_c (default_CrawlConfig\<lparr>max_per_site := - 1\<rparr>))) = - 1 \<and>
   \<not> int (length (rows (snd (crawl_site demo (crawler_c (default_CrawlConfig\<lparr>max_per_site := - 1\<rparr>))
          (str ''C'') (str ''https://c.edu/'')))))
      \<le> max_per_site (cfg (crawler_c (default_CrawlConfig\<lparr>max_per_site := - 1\<rparr>))) \<and>
   cfg_invariant (cfg (crawler_c
      (default_CrawlConfig\<lparr>max_per_site := 2, delay_min := - 1, delay_max := 1\<rparr>))) \<and>
   fst (site_candidates demo
      (crawler_c (default_CrawlConfig\<lparr>max_per_site := 2, delay_min := - 1, delay_max := 1\<rparr>))
      (str ''C'') (str ''https://c.edu/'')) = Inr site_c_candidates \<and>
   length site_c_candidates = 3 \<and>
   list_all (\<lambda>(u, t). fetchable demo
      (crawler_c (default_CrawlConfig\<lparr>max_per_site := 2, delay_min := - 1, delay_max := 1\<rparr>)) u)
     site_c_candidates \<and>
   fst (crawl_site demo
      (crawler_c (default_CrawlConfig\<lparr>max_per_site := 2, delay_min := - 1, delay_max := 1\<rparr>))
      (str ''C'') (str ''https://c.edu/'')) = Some ValueError \<and>
   int (length (rows (snd (crawl_site demo
      (crawler_c (default_CrawlConfig\<lparr>max_per_site := 2, delay_min := - 1, delay_max := 1\<rparr>))
      (str ''C'') (str ''https://c.edu/'')))))
     \<noteq> max_per_site (cfg (crawler_c
          (default_CrawlConfig\<lparr>max_per_site := 2, delay_min := - 1, delay_max := 1\<rparr>)))"
proof -
  have cfgs:
    "max_per_site (cfg (crawler_c (default_CrawlConfig\<lparr>max_per_site := - 1\<rparr>))) = - 1"
    "max_per_site (cfg (crawler_c
        (default_CrawlConfig\<lparr>max_per_site := 2, delay_min := - 1, delay_max := 1\<rparr>))) = 2"
    "cfg_invariant (cfg (crawler_c
        (default_CrawlConfig\<lparr>max_per_site := 2, delay_min := - 1, delay_max := 1\<rparr>)))"
    by (simp_all add: crawler_c_def new_crawler_def default_CrawlConfig_def cfg_invariant_def)
  have three: "length site_c_candidates = 3"
    by (simp add: site_c_candidates_def)
  from negative_delay_run
  have raised: "fst (crawl_site demo
      (crawler_c (default_CrawlConfig\<lparr>max_per_site := 2, delay_min := - 1, delay_max := 1\<rparr>))
      (str ''C'') (str ''https://c.edu/'')) = Some ValueError"
    by (metis fst_conv)
  from cfgs three negative_cap_run negative_delay_found negative_delay_fetchable
    negative_delay_run raised
  show ?thesis by simp
qed

text \<open>
  C1, amended. With a cap \<open>max_per_site\<close> that is not negative, \<open>crawl_site\<close> appends at
  most \<open>max_per_site\<close> rows, all for this site, and its last loop visits the first
  \<open>max_per_site\<close> filtered candidates and no others. If moreover there are at least
  \<open>max_per_site\<close> filtered candidates, the first \<open>max_per_site\<close> of them in iteration
  order are fetchable (a non-empty response that the parser accepts), and every
  \<open>time.sleep\<close> between the visits returns (the delay drawn is neither negative nor too
  large), then the method returns normally with exactly \<open>max_per_site\<close> new rows, one per
  visited candidate, in order.
\<close>

theorem crawl_site_cap:
  assumes "0 \<le> max_per_site (cfg self)"
  shows
    "(\<exists>new. rows (snd (crawl_site e self name base_url)) = rows self @ new \<and>
        int (length new) \<le> max_per_site (cfg self) \<and> (\<forall>rw\<in>set new. university rw = name)) \<and>
     (\<forall>filtered s. site_candidates e self name base_url = (Inr filtered, s) \<longrightarrow>
        crawl_site e self name base_url
          = visit e name (take (nat (max_per_site (cfg self))) filtered) s \<and>
        (max_per_site (cfg self) \<le> int (length filtered) \<and>
         list_all (\<lambda>(u, t). fetchable e self u) (take (nat (max_per_site (cfg self))) filtered) \<and>
         sleeps_return e self \<longrightarrow>
         fst (crawl_site e self name base_url) = None \<and>
         (\<exists>new. rows (snd (crawl_site e self name base_url)) = rows self @ new \<and>
            int (length new) = max_per_site (cfg self) \<and>
            map url new = map fst (take (nat (max_per_site (cfg self))) filtered) \<and>
            (\<forall>rw\<in>set new. university rw = name))))"
proof -
  let ?m = "max_per_site (cfg self)"
  obtain c s where c: "site_candidates e self name base_url = (c, s)"
    by (cases "site_candidates e self name base_url")
  from site_candidates_frame [OF c] have same: "cfg s = cfg self" "rows s = rows self"
    by simp_all
  have run: "crawl_site e self name base_url = visit e name (take (nat ?m) filtered) s"
    if "c = Inr filtered" for filtered
    using that c same assms by (simp add: crawl_site_def slice_to_nonneg)
  have cap: "\<exists>new. rows (snd (crawl_site e self name base_url)) = rows self @ new \<and>
        int (length new) \<le> ?m \<and> (\<forall>rw\<in>set new. university rw = name)"
  proof (cases c)
    case (Inl err)
    with c same assms show ?thesis by (simp add: crawl_site_def)
  next
    case (Inr filtered)
    obtain r self' where v: "visit e name (take (nat ?m) filtered) s = (r, self')"
      by (cases "visit e name (take (nat ?m) filtered) s")
    from visit_rows [OF v] obtain new where
      new: "rows self' = rows s @ new" "length new \<le> length (take (nat ?m) filtered)"
        "\<forall>rw\<in>set new. university rw = name"
      by blast
    from new(2) assms have "int (length new) \<le> ?m" by auto
    with new(1,3) run [OF Inr] v same show ?thesis by simp
  qed
  have exact: "fst (crawl_site e self name base_url) = None \<and>
      (\<exists>new. rows (snd (crawl_site e self name base_url)) = rows self @ new \<and>
         int (length new) = ?m \<and> map url new = map fst (take (nat ?m) filtered) \<and>
         (\<forall>rw\<in>set new. university rw = name))"
    if f: "c = Inr filtered" and many: "?m \<le> int (length filtered)"
      and fetch: "list_all (\<lambda>(u, t). fetchable e self u) (take (nat ?m) filtered)"
      and sleeps: "sleeps_return e self"
    for filtered
  proof -
    from fetch have "list_all (\<lambda>(u, t). fetchable e s u) (take (nat ?m) filtered)"
      by (simp add: fetchable_cong [OF same(1)])
    moreover from sleeps have "sleeps_return e s"
      by (simp add: sleeps_return_cong [OF same(1)])
    ultimately obtain self' new where
      v: "visit e name (take (nat ?m) filtered) s = (None, self')"
      and new: "rows self' = rows s @ new" "map url new = map fst (take (nat ?m) filtered)"
      using visit_all_fetchable [of e s "take (nat ?m) filtered" name] by blast
    from new(2) have "length new = length (take (nat ?m) filtered)"
      by (metis length_map)
    with many assms have len: "int (length new) = ?m" by simp
    from visit_rows [OF v] new(1) have "\<forall>rw\<in>set new. university rw = name" by auto
    with v new len run [OF f] same show ?thesis by auto
  qed
  from cap run exact c show ?thesis by auto
qed

theorem crawl_site_cap_witness:
  "0 \<le> max_per_site (cfg (crawler_c (default_CrawlConfig\<lparr>max_per_site := 2\<rparr>))) \<and>
   fst (site_candidates demo (crawler_c (default_CrawlConfig\<lparr>max_per_site := 2\<rparr>))
         (str ''C'') (str ''https://c.edu/'')) = Inr site_c_candidates \<and>
   length site_c_candidates = 3 \<and>
   list_all (\<lambda>(u, t). fetchable demo (crawler_c (default_CrawlConfig\<lparr>max_per_site := 2\<rparr>)) u)
     site_c_candidates \<and>
   sleeps_return demo (crawler_c (default_CrawlConfig\<lparr>max_per_site := 2\<rparr>)) \<and>
   fst (crawl_site demo (crawler_c (default_CrawlConfig\<lparr>max_per_site := 2\<rparr>))
         (str ''C'') (str ''https://c.edu/'')) = None \<and>
   map url (rows (snd (crawl_site demo (crawler_c (default_CrawlConfig\<lparr>max_per_site := 2\<rparr>))
         (str ''C'') (str ''https://c.edu/''))))
     = [str ''https://c.edu/news/1.html'', str ''https://c.edu/news/2.html'']"
proof -
  let ?c = "crawler_c (default_CrawlConfig\<lparr>max_per_site := 2\<rparr>)"
  let ?n = "str ''C''" and ?b = "str ''https://c.edu/''"
  have m: "max_per_site (cfg ?c) = 2" and dl: "delay_min (cfg ?c) = 1" "delay_max (cfg ?c) = 3"
    and empty: "rows ?c = []"
    by (simp_all add: crawler_c_def new_crawler_def default_CrawlConfig_def)
  have rnd: "sleeps_return demo ?c"
    unfolding demo_def by (rule demo_sleeps_return) (simp_all add: dl)
  have three: "length site_c_candidates = 3"
    by (simp add: site_c_candidates_def)
  have two: "take 2 site_c_candidates
      = [(str ''https://c.edu/news/1.html'', str ''Cooperation one''),
         (str ''https://c.edu/news/2.html'', str ''Cooperation two'')]"
    by (simp add: site_c_candidates_def)
  from site_c_fetchable
  have fetch: "list_all (\<lambda>(u, t). fetchable demo ?c u) (take 2 site_c_candidates)"
    by (simp add: site_c_candidates_def)
  from site_c_found
  have found: "site_candidates demo ?c ?n ?b = (Inr site_c_candidates, snd (site_candidates demo ?c ?n ?b))"
    by (cases "site_candidates demo ?c ?n ?b") simp
  have nonneg: "0 \<le> max_per_site (cfg ?c)"
    by (simp add: m)
  note exact = crawl_site_cap [OF nonneg, of demo ?n ?b, THEN conjunct2, rule_format, OF found,
      THEN conjunct2, rule_format]
  have "max_per_site (cfg ?c) \<le> int (length site_c_candidates) \<and>
      list_all (\<lambda>(u, t). fetchable demo ?c u) (take (nat (max_per_site (cfg ?c))) site_c_candidates) \<and>
      sleeps_return demo ?c"
    using fetch rnd three by (simp add: m)
  from exact [OF this]
  have "fst (crawl_site demo ?c ?n ?b) = None \<and>
      (\<exists>new. rows (snd (crawl_site demo ?c ?n ?b)) = rows ?c @ new \<and>
         map url new = map fst (take 2 site_c_candidates))"
    by (auto simp: m)
  with empty two have "fst (crawl_site demo ?c ?n ?b) = None"
    and "map url (rows (snd (crawl_site demo ?c ?n ?b)))
      = [str ''https://c.edu/news/1.html'', str ''https://c.edu/news/2.html'']"
    by auto
  with nonneg site_c_found three site_c_fetchable rnd show ?thesis by blast
qed

section \<open>Isolation of a failing site\<close>

text \<open>The log only grows, and the rows only grow.\<close>

lemma get_log: "get e self u = (r, self') \<Longrightarrow> prefix (log self) (log self')"
  by (auto simp: get_def split: sum.splits exn.splits)

lemma listing_step:
  assumes "listing_candidates e b (pat # pats) cands self = (r, self')"
  shows "self' = self \<or>
         (\<exists>u g s1. get e self u = (g, s1) \<and>
            (self' = s1 \<or> (\<exists>c. listing_candidates e b pats c s1 = (r, self'))))"
proof (cases "urljoin e b pat")
  case (Inl err)
  with assms show ?thesis by simp
next
  case (Inr u)
  obtain g s1 where g: "get e self u = (g, s1)"
    by (cases "get e self u")
  from assms Inr g
  have "self' = s1 \<or> (\<exists>c. listing_candidates e b pats c s1 = (r, self'))"
    by (auto split: sum.splits option.splits if_splits)
  with g show ?thesis by blast
qed

lemma listing_candidates_log:
  "listing_candidates e b pats cands self = (r, self') \<Longrightarrow> prefix (log self) (log self')"
proof (induction pats arbitrary: cands self)
  case Nil
  then show ?case by simp
next
  case (Cons pat pats)
  from listing_step [OF Cons.prems] show ?case
  proof (elim disjE exE conjE)
    assume "self' = self"
    then show ?thesis by simp
  next
    fix u g s1 assume "get e self u = (g, s1)" and "self' = s1"
    with get_log show ?thesis by blast
  next
    fix u g s1 c
    assume "get e self u = (g, s1)" and "listing_candidates e b pats c s1 = (r, self')"
    from get_log [OF this(1)] Cons.IH [OF this(2)] show ?thesis
      by (rule prefix_order.trans)
  qed
qed

lemma home_candidates_log:
  "home_candidates e b cands self = (r, self') \<Longrightarrow> prefix (log self) (log self')"
proof -
  assume h: "home_candidates e b cands self = (r, self')"
  obtain g s1 where g: "get e self b = (g, s1)"
    by (cases "get e self b")
  from h g have "self' = s1"
    by (auto simp: home_candidates_def split: sum.splits option.splits if_splits)
  with get_log [OF g] show ?thesis by simp
qed

lemma site_candidates_log:
  assumes "site_candidates e self name b = (r, self')"
  shows "prefix (log self @ [Info_crawling name]) (log self')"
proof -
  let ?s1 = "self\<lparr>log := log self @ [Info_crawling name]\<rparr>"
  obtain l s2 where l: "listing_candidates e b NEWS_LIST_PATTERNS [] ?s1 = (l, s2)"
    by (cases "listing_candidates e b NEWS_LIST_PATTERNS [] ?s1")
  from listing_candidates_log [OF l] have p2: "prefix (log self @ [Info_crawling name]) (log s2)"
    by simp
  show ?thesis
  proof (cases l)
    case (Inl err)
    with assms l have "self' = s2" by (simp add: site_candidates_def)
    with p2 show ?thesis by simp
  next
    case (Inr cands)
    obtain hc s3 where hc: "home_candidates e b cands s2 = (hc, s3)"
      by (cases "home_candidates e b cands s2")
    from p2 home_candidates_log [OF hc]
    have p3: "prefix (log self @ [Info_crawling name]) (log s3)"
      by (rule prefix_order.trans)
    from assms l Inr hc have
      "self' = s3 \<or> (\<exists>n. self' = s3\<lparr>log := log s3 @ [Info_candidates name n]\<rparr>)"
      by (auto simp: site_candidates_def Let_def split: sum.splits)
    with p3 show ?thesis by (auto intro: prefix_order.trans)
  qed
qed

lemma visit_log: "visit e name cs self = (r, self') \<Longrightarrow> prefix (log self) (log self')"
proof (induction cs arbitrary: self)
  case Nil
  then show ?case by simp
next
  case (Cons c cs)
  obtain u t where c: "c = (u, t)" by (cases c)
  obtain g s1 where g: "get e self u = (g, s1)"
    by (cases "get e self u")
  note p1 = get_log [OF g]
  from Cons.prems c have "visit e name ((u, t) # cs) self = (r, self')" by simp
  from visit_step [OF this g] show ?case
  proof (elim disjE exE conjE)
    fix err assume "self' = s1"
    with p1 show ?thesis by simp
  next
    assume "visit e name cs s1 = (r, self')"
    from p1 Cons.IH [OF this] show ?thesis by (rule prefix_order.trans)
  next
    fix rw assume "self' = s1\<lparr>rows := rows s1 @ [rw], ticks := Suc (ticks s1)\<rparr>"
    with p1 show ?thesis by simp
  next
    fix rw
    assume "visit e name cs (s1\<lparr>rows := rows s1 @ [rw], ticks := Suc (ticks s1)\<rparr>) = (r, self')"
    from Cons.IH [OF this] have "prefix (log s1) (log self')" by simp
    with p1 show ?thesis by (rule prefix_order.trans)
  qed
qed

lemma crawl_site_log:
  assumes "crawl_site e self name b = (r, self')"
  shows "prefix (log self @ [Info_crawling name]) (log self')"
proof -
  obtain c s1 where c: "site_candidates e self name b = (c, s1)"
    by (cases "site_candidates e self name b")
  note p1 = site_candidates_log [OF c]
  show ?thesis
  proof (cases c)
    case (Inl err)
    with assms c p1 show ?thesis by (simp add: crawl_site_def)
  next
    case (Inr filtered)
    with assms c have "visit e name (slice_to filtered (max_per_site (cfg s1))) s1 = (r, self')"
      by (simp add: crawl_site_def)
    from p1 visit_log [OF this] show ?thesis by (rule prefix_order.trans)
  qed
qed

lemma crawl_site_rows:
  assumes "crawl_site e self name b = (r, self')"
  shows "\<exists>new. rows self' = rows self @ new \<and> (\<forall>rw\<in>set new. university rw = name)"
proof -
  obtain c s1 where c: "site_candidates e self name b = (c, s1)"
    by (cases "site_candidates e self name b")
  from site_candidates_frame [OF c] have same: "rows s1 = rows self" by simp
  show ?thesis
  proof (cases c)
    case (Inl err)
    with assms c same show ?thesis by (simp add: crawl_site_def)
  next
    case (Inr filtered)
    with assms c have "visit e name (slice_to filtered (max_per_site (cfg s1))) s1 = (r, self')"
      by (simp add: crawl_site_def)
    from visit_rows [OF this] same show ?thesis by auto
  qed
qed

lemma crawl_loop_Cons_cases:
  obtains (returned) s' where "crawl_site e self name u = (None, s')"
      and "crawl_loop e ((name, u) # rest) self = crawl_loop e rest s'"
  | (raised) err s' where "crawl_site e self name u = (Some err, s')"
      and "crawl_loop e ((name, u) # rest) self
            = crawl_loop e rest (s'\<lparr>log := log s' @ [Error_on name err]\<rparr>)"
proof (cases "crawl_site e self name u")
  case (Pair r s')
  show ?thesis
  proof (cases r)
    case None
    with Pair returned show ?thesis by simp
  next
    case (Some err)
    with Pair raised show ?thesis by simp
  qed
qed

lemma crawl_loop_grows:
  "prefix (rows self) (rows (crawl_loop e ss self)) \<and> prefix (log self) (log (crawl_loop e ss self))"
proof (induction ss arbitrary: self)
  case Nil
  then show ?case by simp
next
  case (Cons s ss)
  obtain name u where s: "s = (name, u)" by (cases s)
  have "\<exists>t. crawl_loop e ((name, u) # ss) self = crawl_loop e ss t \<and>
      prefix (rows self) (rows t) \<and> prefix (log self) (log t)"
  proof (rule crawl_loop_Cons_cases [of e self name u ss])
    fix s'
    assume returned: "crawl_site e self name u = (None, s')"
      "crawl_loop e ((name, u) # ss) self = crawl_loop e ss s'"
    from crawl_site_rows [OF returned(1)] have r: "prefix (rows self) (rows s')" by auto
    from crawl_site_log [OF returned(1)] have l: "prefix (log self) (log s')"
      by (rule append_prefixD)
    from returned(2) r l show ?thesis by blast
  next
    fix err s'
    assume raised: "crawl_site e self name u = (Some err, s')"
      "crawl_loop e ((name, u) # ss) self
        = crawl_loop e ss (s'\<lparr>log := log s' @ [Error_on name err]\<rparr>)"
    from crawl_site_rows [OF raised(1)] have r: "prefix (rows self) (rows s')" by auto
    from crawl_site_log [OF raised(1)] have l: "prefix (log self) (log s')"
      by (rule append_prefixD)
    from l have "prefix (log self) (log s' @ [Error_on name err])"
      by (rule prefix_prefix)
    with raised(2) r show ?thesis
      by (intro exI [of _ "s'\<lparr>log := log s' @ [Error_on name err]\<rparr>"]) simp
  qed
  then obtain t where t: "crawl_loop e (s # ss) self = crawl_loop e ss t"
    "prefix (rows self) (rows t)" "prefix (log self) (log t)"
    using s by blast
  from Cons.IH [of t] have "prefix (rows t) (rows (crawl_loop e ss t))"
    and "prefix (log t) (log (crawl_loop e ss t))"
    by simp_all
  with t(2,3) have "prefix (rows self) (rows (crawl_loop e ss t))"
    and "prefix (log self) (log (crawl_loop e ss t))"
    by (blast intro: prefix_order.trans)+
  with t(1) show ?case by simp
qed

lemma crawl_loop_append:
  "crawl_loop e (xs @ ys) self = crawl_loop e ys (crawl_loop e xs self)"
proof (induction xs arbitrary: self)
  case Nil
  then show ?case by simp
next
  case (Cons x xs)
  obtain name u where x: "x = (name, u)" by (cases x)
  from Cons.IH x show ?case
    by (cases "crawl_site e self name u") (simp split: option.splits)
qed

lemma site_b_raises:
  "fst (crawl_site demo (demo_crawler default_CrawlConfig) (str ''B'') (str ''https://b.edu/''))
     = Some ValueError"
  by code_simp

lemma two_sites_run:
  "map (\<lambda>rw. (university rw, url rw))
     (fst (crawl demo (demo_crawler default_CrawlConfig)
        (Some [(str ''B'', str ''https://b.edu/''), (str ''X'', str ''https://x.edu/'')])))
     = [(str ''X'', str ''https://x.edu/news/coop.html'')]"
  by code_simp

text \<open>
  C2. \<open>crawl\<close> is a total function: it returns for every sequence of sites. If the crawl
  of one site raises an exception, reached after the sites \<open>before\<close> it, then \<open>crawl\<close>
  logs an error record with the site's name and goes on with the loop over the sites
  \<open>after\<close> it. Every one of these is attempted (its "Crawling" record is in the final
  log), from the state its predecessors left, and the rows it appends are part of the
  row sequence \<open>crawl\<close> returns.
\<close>

theorem crawl_isolates_errors:
  assumes "crawl_site e (crawl_loop e before self) name u = (Some err, failed)"
  shows
    "snd (crawl e self (Some (before @ (name, u) # after)))
       = crawl_loop e after (failed\<lparr>log := log failed @ [Error_on name err]\<rparr>) \<and>
     Error_on name err \<in> set (log (snd (crawl e self (Some (before @ (name, u) # after))))) \<and>
     (\<forall>pre name' u' post. after = pre @ (name', u') # post \<longrightarrow>
        (\<exists>r s s' new more.
            s = crawl_loop e pre (failed\<lparr>log := log failed @ [Error_on name err]\<rparr>) \<and>
            crawl_site e s name' u' = (r, s') \<and>
            Info_crawling name' \<in> set (log (snd (crawl e self (Some (before @ (name, u) # after))))) \<and>
            rows s' = rows s @ new \<and>
            fst (crawl e self (Some (before @ (name, u) # after))) = rows s @ new @ more))"
proof -
  let ?target = "before @ (name, u) # after"
  let ?logged = "failed\<lparr>log := log failed @ [Error_on name err]\<rparr>"
  let ?final = "crawl_loop e after ?logged"
  have run: "crawl e self (Some ?target) = (rows ?final, ?final)"
    using assms by (simp add: crawl_def Let_def crawl_loop_append)
  have "prefix (log ?logged) (log ?final)"
    using crawl_loop_grows [of ?logged e after] by simp
  then have logged: "Error_on name err \<in> set (log ?final)"
    by (auto simp: prefix_def)
  have later: "\<exists>r s s' new more.
      s = crawl_loop e pre ?logged \<and> crawl_site e s name' u' = (r, s') \<and>
      Info_crawling name' \<in> set (log ?final) \<and> rows s' = rows s @ new \<and>
      rows ?final = rows s @ new @ more"
    if split: "after = pre @ (name', u') # post" for pre name' u' post
  proof -
    let ?s = "crawl_loop e pre ?logged"
    obtain r s' where site: "crawl_site e ?s name' u' = (r, s')"
      by (cases "crawl_site e ?s name' u'")
    from crawl_site_rows [OF site] obtain new where new: "rows s' = rows ?s @ new"
      by blast
    from crawl_site_log [OF site] have here: "Info_crawling name' \<in> set (log s')"
      by (auto simp: prefix_def)
    have "\<exists>t. ?final = crawl_loop e post t \<and> prefix (rows s') (rows t) \<and> prefix (log s') (log t)"
    proof (cases r)
      case None
      with site split have "?final = crawl_loop e post s'"
        by (simp add: crawl_loop_append)
      then show ?thesis by (intro exI [of _ s']) simp
    next
      case (Some err')
      with site split have "?final = crawl_loop e post (s'\<lparr>log := log s' @ [Error_on name' err']\<rparr>)"
        by (simp add: crawl_loop_append)
      then show ?thesis
        by (intro exI [of _ "s'\<lparr>log := log s' @ [Error_on name' err']\<rparr>"]) simp
    qed
    then obtain t where t: "?final = crawl_loop e post t" "prefix (rows s') (rows t)"
      "prefix (log s') (log t)"
      by blast
    from t crawl_loop_grows [of t e post]
    have "prefix (rows s') (rows ?final)" and "prefix (log s') (log ?final)"
      by (auto intro: prefix_order.trans)
    with new here obtain more where "rows ?final = rows ?s @ new @ more"
      and "Info_crawling name' \<in> set (log ?final)"
      by (auto simp: prefix_def)
    with site new show ?thesis by blast
  qed
  from run have out: "fst (crawl e self (Some ?target)) = rows ?final"
    "snd (crawl e self (Some ?target)) = ?final"
    by simp_all
  show ?thesis
    unfolding out using logged later by blast
qed

theorem crawl_isolates_errors_witness:
  "fst (crawl_site demo (crawl_loop demo [] (demo_crawler default_CrawlConfig))
         (str ''B'') (str ''https://b.edu/'')) = Some ValueError \<and>
   Error_on (str ''B'') ValueError
     \<in> set (log (snd (crawl demo (demo_crawler default_CrawlConfig)
          (Some ([] @ (str ''B'', str ''https://b.edu/'') # [(str ''X'', str ''https://x.edu/'')]))))) \<and>
   Info_crawling (str ''X'')
     \<in> set (log (snd (crawl demo (demo_crawler default_CrawlConfig)
          (Some ([] @ (str ''B'', str ''https://b.edu/'') # [(str ''X'', str ''https://x.edu/'')]))))) \<and>
   map (\<lambda>rw. (university rw, url rw))
     (fst (crawl demo (demo_crawler default_CrawlConfig)
        (Some ([] @ (str ''B'', str ''https://b.edu/'') # [(str ''X'', str ''https://x.edu/'')]))))
     = [(str ''X'', str ''https://x.edu/news/coop.html'')]"
proof -
  let ?c = "demo_crawler default_CrawlConfig"
  let ?failed = "snd (crawl_site demo (crawl_loop demo [] ?c) (str ''B'') (str ''https://b.edu/''))"
  from site_b_raises
  have raised: "crawl_site demo (crawl_loop demo [] ?c) (str ''B'') (str ''https://b.edu/'')
      = (Some ValueError, ?failed)"
    by (cases "crawl_site demo ?c (str ''B'') (str ''https://b.edu/'')") simp
  note isolated = crawl_isolates_errors [OF raised, of "[(str ''X'', str ''https://x.edu/'')]"]
  from isolated have logged: "Error_on (str ''B'') ValueError
     \<in> set (log (snd (crawl demo ?c
          (Some ([] @ (str ''B'', str ''https://b.edu/'') # [(str ''X'', str ''https://x.edu/'')])))))"
    by (rule conjunct2 [THEN conjunct1])
  from isolated have "\<forall>pre name' u' post.
      [(str ''X'', str ''https://x.edu/'')] = pre @ (name', u') # post \<longrightarrow>
      Info_crawling name'
        \<in> set (log (snd (crawl demo ?c
          (Some ([] @ (str ''B'', str ''https://b.edu/'') # [(str ''X'', str ''https://x.edu/'')])))))"
    by blast
  then have "[(str ''X'', str ''https://x.edu/'')] = [] @ (str ''X'', str ''https://x.edu/'') # [] \<longrightarrow>
      Info_crawling (str ''X'')
        \<in> set (log (snd (crawl demo ?c
          (Some ([] @ (str ''B'', str ''https://b.edu/'') # [(str ''X'', str ''https://x.edu/'')])))))"
    by blast
  then have attempted: "Info_crawling (str ''X'')
        \<in> set (log (snd (crawl demo ?c
          (Some ([] @ (str ''B'', str ''https://b.edu/'') # [(str ''X'', str ''https://x.edu/'')])))))"
    by simp
  from site_b_raises two_sites_run logged attempted show ?thesis by simp
qed

section \<open>End to end\<close>

text \<open>Which anchors the link selectors pick, and what a page with one anchor yields.\<close>

lemma in_select_iff:
  "x \<in> set (select doc sel) \<longleftrightarrow>
     (\<exists>ancestors. (x, ancestors) \<in> set (concat (map (elements []) doc)) \<and> matches sel x ancestors)"
  by (force simp: select_def)

lemma link_selector_matches_anchor:
  assumes "sel \<in> set NEWS_LINK_SELECTORS" and "matches sel x ancestors"
  shows "matches (Simple (ByTag (str ''a''))) x ancestors"
proof (cases x)
  case (Text s)
  with assms(2) show ?thesis by (cases sel) simp_all
next
  case (Tag name classes attrs children)
  from assms(1) consider sub where "sel = Simple (ByAttrContains (str ''a'') (str ''href'') sub)"
    | cls where "sel = Descendant (ByClass cls) (ByTag (str ''a''))"
    unfolding NEWS_LINK_SELECTORS_def by fastforce
  then show ?thesis
  proof cases
    case 1
    with assms(2) Tag show ?thesis by simp
  next
    case 2
    with assms(2) Tag show ?thesis by simp
  qed
qed

lemma link_anchors_are_anchors:
  "set (link_anchors doc) \<subseteq> set (select doc (Simple (ByTag (str ''a''))))"
proof
  fix x assume "x \<in> set (link_anchors doc)"
  then obtain sel ancestors where sel: "sel \<in> set NEWS_LINK_SELECTORS"
    and x: "(x, ancestors) \<in> set (concat (map (elements []) doc))" "matches sel x ancestors"
    unfolding link_anchors_def by (auto simp: in_select_iff)
  from link_selector_matches_anchor [OF sel x(2)] x(1)
  show "x \<in> set (select doc (Simple (ByTag (str ''a''))))"
    unfolding in_select_iff by blast
qed

lemma news_href_is_link_anchor:
  assumes "x \<in> set (select doc (Simple (ByTag (str ''a''))))"
    and "el_get x (str ''href'') = Some href" and "str_in (str ''news'') href"
  shows "x \<in> set (link_anchors doc)"
proof -
  from assms(1) obtain ancestors where
    x: "(x, ancestors) \<in> set (concat (map (elements []) doc))" "matches_simple (ByTag (str ''a'')) x"
    by (auto simp: in_select_iff)
  from x(2) assms(2,3)
  have "matches (Simple (ByAttrContains (str ''a'') (str ''href'') (str ''news''))) x ancestors"
    by (cases x) simp_all
  with x(1)
  have "x \<in> set (select doc (Simple (ByAttrContains (str ''a'') (str ''href'') (str ''news''))))"
    by (auto simp: in_select_iff)
  then show ?thesis
    by (simp add: link_anchors_def NEWS_LINK_SELECTORS_def)
qed

lemma links_of_anchors_returns:
  "\<forall>a\<in>set as. \<exists>r. anchor_link e b a = Inr r \<Longrightarrow> \<exists>links. links_of_anchors e b as acc = Inr links"
proof (induction as arbitrary: acc)
  case Nil
  then show ?case by simp
next
  case (Cons a as)
  from Cons.prems obtain r where r: "anchor_link e b a = Inr r" by auto
  from Cons.prems have "\<forall>a\<in>set as. \<exists>r. anchor_link e b a = Inr r" by simp
  from Cons.IH [OF this] r show ?case
    by (cases r) simp_all
qed

lemma distinct_singleton: "distinct xs \<Longrightarrow> set xs = {x} \<Longrightarrow> xs = [x]"
proof (cases xs)
  case Nil
  assume "set xs = {x}"
  with Nil show ?thesis by simp
next
  case (Cons y ys)
  assume d: "distinct xs" and s: "set xs = {x}"
  from s Cons have y: "y = x" and sub: "set ys \<subseteq> {x}" by auto
  from d Cons y have "x \<notin> set ys" by simp
  with sub have "ys = []" by (cases ys) auto
  with Cons y show ?thesis by simp
qed

lemma extract_links_single:
  assumes ok: "set_order_ok e"
    and parsed: "BeautifulSoup e html = Inr doc"
    and one: "select doc (Simple (ByTag (str ''a''))) = [a]"
    and href: "el_get a (str ''href'') = Some href" "str_in (str ''news'') href"
    and link: "anchor_link e b a = Inr (Some l)"
  shows "extract_links e html b = Inr [l]"
proof -
  from link_anchors_are_anchors [of doc] one have sub: "set (link_anchors doc) \<subseteq> {a}"
    by simp
  from news_href_is_link_anchor [of a doc, OF _ href] one have mem: "a \<in> set (link_anchors doc)"
    by simp
  from sub mem have all: "set (link_anchors doc) = {a}" by blast
  with link have "\<forall>x\<in>set (link_anchors doc). \<exists>r. anchor_link e b x = Inr r" by simp
  from links_of_anchors_returns [OF this, of "[]"] obtain raw where
    "links_of_anchors e b (link_anchors doc) [] = Inr raw"
    by blast
  with parsed have res: "extract_links e html b = Inr (list_of_set e raw)"
    by (simp add: extract_links_def links_of_selectors_flat link_anchors_def)
  from extract_links_set [OF ok res] parsed all link
  have "set (list_of_set e raw) = {l}" "distinct (list_of_set e raw)"
    by auto
  then have "list_of_set e raw = [l]"
    by (rule distinct_singleton [rotated])
  with res show ?thesis by simp
qed

lemma listing_all_skipped:
  "list_all (listing_skipped e self b) pats \<Longrightarrow> cfg s = cfg self \<Longrightarrow>
   crawler_keywords s = crawler_keywords self \<Longrightarrow>
   fst (listing_candidates e b pats cands s) = Inr cands"
proof (induction pats arbitrary: s)
  case Nil
  then show ?case by simp
next
  case (Cons pat pats)
  from Cons.prems(1) have skip: "listing_skipped e self b pat"
    and rest: "list_all (listing_skipped e self b) pats"
    by simp_all
  from skip obtain u where u: "urljoin e b pat = Inr u"
    by (auto simp: listing_skipped_def split: sum.splits)
  let ?resp = "session_get e (user_agent (cfg self)) (timeout (cfg self)) u"
  show ?case
  proof (cases ?resp)
    case (Inl err)
    with skip u have "err = RequestException"
      by (simp add: listing_skipped_def)
    with Inl Cons.prems(2)
    have g: "get e s u = (Inr None, s\<lparr>log := log s @ [Warning_get_failed u RequestException]\<rparr>)"
      by (simp add: get_def)
    from Cons.IH [OF rest, of "s\<lparr>log := log s @ [Warning_get_failed u RequestException]\<rparr>"]
      Cons.prems(2,3) u g
    show ?thesis by simp
  next
    case (Inr html)
    with skip u have nokw: "\<not> contains_kw e self (Some html)"
      by (simp add: listing_skipped_def)
    from Inr Cons.prems(2) have g: "get e s u = (Inr (Some html), s)"
      by (simp add: get_def)
    from nokw contains_kw_cong [OF Cons.prems(3), of e] have "\<not> contains_kw e s (Some html)"
      by simp
    with Cons.IH [OF rest Cons.prems(2,3)] u g show ?thesis by simp
  qed
qed

lemma list_of_set_single: "set_order_ok e \<Longrightarrow> list_of_set e [x] = [x]"
  using list_of_set_props [of e "[x]"] by (simp add: distinct_singleton)

lemma news_in_coop_href: "str_in (str ''news'') (str ''/news/coop.html'')"
  by (simp add: str_def)

lemma demo_listings_skipped:
  "list_all (listing_skipped demo (demo_crawler c) (str ''https://x.edu/'')) NEWS_LIST_PATTERNS"
  by code_simp

lemma demo_home_parsed:
  "BeautifulSoup demo (str ''X-HOME'') = Inr (page [] [anchor (str ''/news/coop.html'') coop_text])"
  by code_simp

lemma demo_home_anchor:
  "select (page [] [anchor (str ''/news/coop.html'') coop_text]) (Simple (ByTag (str ''a'')))
     = [anchor (str ''/news/coop.html'') coop_text]"
  by code_simp

lemma demo_coop_keyword: "contains_kw demo (demo_crawler c) (Some coop_text)"
  by code_simp

text \<open>
  C9. One site; none of its listing pages adds candidates (each fails to fetch or holds
  no keyword); its homepage parses and holds exactly one anchor, with \<open>href\<close>
  \<open>/news/coop.html\<close> and the anchor text of the scenario, which matches the crawler's
  keywords; the \<open>href\<close> resolves against the base URL to a URL with scheme and host; the
  article page fetches and parses. Then a fresh crawler with \<open>max_per_site = 5\<close> returns
  exactly one row: its university is the site's name, its url the resolved URL, its link
  text the anchor text, its title and content those extracted from the article page.
  The row is there whether or not the \<open>time.sleep\<close> after it raises.
\<close>

theorem end_to_end:
  assumes ok: "set_order_ok e"
    and fresh: "rows self = []"
    and cap: "max_per_site (cfg self) = 5"
    and listings: "list_all (listing_skipped e self base_url) NEWS_LIST_PATTERNS"
    and home: "session_get e (user_agent (cfg self)) (timeout (cfg self)) base_url = Inr home"
      "home \<noteq> []"
    and parsed: "BeautifulSoup e home = Inr doc"
    and one: "select doc (Simple (ByTag (str ''a''))) = [a]"
    and href: "el_get a (str ''href'') = Some (str ''/news/coop.html'')"
    and anchor_text: "tag_get_text e a = coop_text"
    and resolved: "urljoin e base_url (str ''/news/coop.html'') = Inr full" "is_valid_url e full"
    and kw: "contains_kw e self (Some coop_text)"
    and article: "session_get e (user_agent (cfg self)) (timeout (cfg self)) full = Inr body"
      "body \<noteq> []"
    and article_parsed: "BeautifulSoup e body = Inr article_doc"
  shows "\<exists>rw data. fst (crawl e self (Some [(name, base_url)])) = [rw] \<and>
           university rw = name \<and> url rw = full \<and> link_text rw = coop_text \<and>
           extract_content e body full = Inr data \<and>
           title rw = art_title data \<and> content rw = art_content data"
proof -
  let ?l = "(full, coop_text)"
  let ?s1 = "self\<lparr>log := log self @ [Info_crawling name]\<rparr>"
  \<comment> \<open>the listing pages add nothing\<close>
  have "fst (listing_candidates e base_url NEWS_LIST_PATTERNS [] ?s1) = Inr []"
    by (rule listing_all_skipped [OF listings]) simp_all
  then obtain s2 where
    l: "listing_candidates e base_url NEWS_LIST_PATTERNS [] ?s1 = (Inr [], s2)"
    by (cases "listing_candidates e base_url NEWS_LIST_PATTERNS [] ?s1") simp
  from listing_candidates_frame [OF l] have s2: "cfg s2 = cfg self"
    "crawler_keywords s2 = crawler_keywords self" "rows s2 = []"
    by (simp_all add: fresh)
  \<comment> \<open>the homepage gives the one link\<close>
  from home s2(1) have g: "get e s2 base_url = (Inr (Some home), s2)"
    by (simp add: get_def)
  have "coop_text \<noteq> []" and "str ''/news/coop.html'' \<noteq> []"
    by (simp_all add: coop_text_def str_def)
  with href anchor_text resolved have link: "anchor_link e base_url a = Inr (Some ?l)"
    by (simp add: anchor_link_def)
  from extract_links_single [OF ok parsed one href news_in_coop_href link]
  have links: "extract_links e home base_url = Inr [?l]" .
  from g home(2) links have h: "home_candidates e base_url [] s2 = (Inr [?l], s2)"
    by (simp add: home_candidates_def)
  \<comment> \<open>it passes the keyword filter\<close>
  from kw contains_kw_cong [OF s2(2), of e] have "contains_kw e s2 (Some coop_text)"
    by simp
  then have f: "filtered_candidates e s2 [?l] = [?l]"
    by (simp add: filtered_candidates_def list_of_set_single [OF ok])
  let ?s4 = "s2\<lparr>log := log s2 @ [Info_candidates name 1]\<rparr>"
  from l h f have sc: "site_candidates e self name base_url = (Inr [?l], ?s4)"
    by (simp add: site_candidates_def)
  \<comment> \<open>the article is fetched and its row appended\<close>
  from article(1) s2(1) have ga: "get e ?s4 full = (Inr (Some body), ?s4)"
    by (simp add: get_def)
  from article_parsed obtain data where data: "extract_content e body full = Inr data"
    "art_url data = full"
    by (simp add: extract_content_cases)
  let ?rw = "\<lparr>university = name, title = art_title data, publish_time = art_publish_time data,
      content = art_content data, url = art_url data, link_text = coop_text,
      crawl_time = clock_now e (ticks ?s4)\<rparr>"
  let ?s5 = "?s4\<lparr>rows := rows ?s4 @ [?rw], ticks := Suc (ticks ?s4)\<rparr>"
  from ga article(2) data(1)
  have v: "\<exists>r. visit e name [?l] ?s4 = (r, ?s5)"
    by (simp add: Let_def split: option.splits)
  from sc cap s2(1) have "crawl_site e self name base_url = visit e name [?l] ?s4"
    by (simp add: crawl_site_def slice_to_def)
  with v obtain r where "crawl_site e self name base_url = (r, ?s5)"
    by auto
  then have "rows (crawl_loop e [(name, base_url)] self) = rows ?s5"
    by (cases r) simp_all
  with s2(3) have out: "fst (crawl e self (Some [(name, base_url)])) = [?rw]"
    by (simp add: crawl_def)
  with data show ?thesis by simp
qed

theorem end_to_end_witness:
  "set_order_ok demo \<and>
   list_all (listing_skipped demo (demo_crawler (default_CrawlConfig\<lparr>max_per_site := 5\<rparr>))
      (str ''https://x.edu/'')) NEWS_LIST_PATTERNS \<and>
   BeautifulSoup demo (str ''X-HOME'')
     = Inr (page [] [anchor (str ''/news/coop.html'') coop_text]) \<and>
   select (page [] [anchor (str ''/news/coop.html'') coop_text]) (Simple (ByTag (str ''a'')))
     = [anchor (str ''/news/coop.html'') coop_text] \<and>
   urljoin demo (str ''https://x.edu/'') (str ''/news/coop.html'')
     = Inr (str ''https://x.edu/news/coop.html'') \<and>
   is_valid_url demo (str ''https://x.edu/news/coop.html'') \<and>
   contains_kw demo (demo_crawler (default_CrawlConfig\<lparr>max_per_site := 5\<rparr>)) (Some coop_text) \<and>
   (\<exists>rw. fst (crawl demo (demo_crawler (default_CrawlConfig\<lparr>max_per_site := 5\<rparr>))
              (Some [(str ''X'', str ''https://x.edu/'')])) = [rw] \<and>
         university rw = str ''X'' \<and> url rw = str ''https://x.edu/news/coop.html'' \<and>
         link_text rw = coop_text \<and> title rw = str ''Signing ceremony'' \<and>
         content rw = str ''The agreement was signed.'')"
proof -
  let ?c = "demo_crawler (default_CrawlConfig\<lparr>max_per_site := 5\<rparr>)"
  have ok: "set_order_ok demo"
    by (simp add: demo_def demo_set_order_ok)
  have fresh: "rows ?c = []" and cap: "max_per_site (cfg ?c) = 5"
    by (simp_all add: demo_crawler_def new_crawler_def)
  have home: "session_get demo (user_agent (cfg ?c)) (timeout (cfg ?c)) (str ''https://x.edu/'')
      = Inr (str ''X-HOME'')" "str ''X-HOME'' \<noteq> []"
    by code_simp+
  have href: "el_get (anchor (str ''/news/coop.html'') coop_text) (str ''href'')
      = Some (str ''/news/coop.html'')"
    and anchor_text: "tag_get_text demo (anchor (str ''/news/coop.html'') coop_text) = coop_text"
    by code_simp+
  have resolved: "urljoin demo (str ''https://x.edu/'') (str ''/news/coop.html'')
      = Inr (str ''https://x.edu/news/coop.html'')"
    "is_valid_url demo (str ''https://x.edu/news/coop.html'')"
    by code_simp+
  have article: "session_get demo (user_agent (cfg ?c)) (timeout (cfg ?c))
      (str ''https://x.edu/news/coop.html'') = Inr (str ''X-COOP'')" "str ''X-COOP'' \<noteq> []"
    by code_simp+
  have fields: "extract_content demo (str ''X-COOP'') (str ''https://x.edu/news/coop.html'')
      = Inr \<lparr>art_title = str ''Signing ceremony'', art_publish_time = [],
             art_content = str ''The agreement was signed.'',
             art_url = str ''https://x.edu/news/coop.html''\<rparr>"
    by code_simp
  then obtain article_doc where article_parsed: "BeautifulSoup demo (str ''X-COOP'') = Inr article_doc"
    by (cases "BeautifulSoup demo (str ''X-COOP'')") (simp_all add: extract_content_cases)
  from end_to_end [OF ok fresh cap demo_listings_skipped home demo_home_parsed demo_home_anchor
      href anchor_text resolved demo_coop_keyword article article_parsed, of "str ''X''"] fields
  have "\<exists>rw. fst (crawl demo ?c (Some [(str ''X'', str ''https://x.edu/'')])) = [rw] \<and>
         university rw = str ''X'' \<and> url rw = str ''https://x.edu/news/coop.html'' \<and>
         link_text rw = coop_text \<and> title rw = str ''Signing ceremony'' \<and>
         content rw = str ''The agreement was signed.''"
    by auto
  with ok demo_listings_skipped demo_home_parsed demo_home_anchor resolved demo_coop_keyword
  show ?thesis by blast
qed

end
